theory Spec2Isabelle
  imports Main
begin

section \<open>The broker's data model\<close>

text \<open>
  The final revision of the broker keeps two process-wide maps: \<open>jobs\<close> from a job
  identifier to its record, and \<open>idem\<close> from an idempotency key to a job identifier
  or to the sentinel string \<open>PENDING\<close>. Every handler works on them while it holds a
  mutex, so a handler is modelled as a function from the two maps to a response, the
  operations it performs on the condition variable \<open>jobCond\<close>, and the two maps
  afterwards. Wall-clock readings (\<open>time.Now().Unix()\<close>), the identifier drawn by
  \<open>uuid.NewString()\<close>, the value drawn by \<open>rand.Int63n\<close> and the order in which
  \<open>range\<close> visits a map come from outside the program: they are parameters.

  The timestamps, the lease counter and the attempt counter are \<open>int64\<close>/\<open>int\<close>
  in the source. They are counted in seconds since the epoch, in leases and in failures,
  all far from \<open>2^63\<close>, and are modelled as unbounded integers. The one place where
  a small input overflows, the shift in \<open>retryDelaySeconds\<close>, has the 64-bit
  wrap-around written out. Calls of \<open>logEvent\<close> only write to the log and are left out.
\<close>

datatype JobState = StateQueued | StateLeased | StateDone | StateDead

record Job =
  ID :: string
  Payload :: string
  State :: JobState
  LeaseOwner :: string
  LeaseExpiresAt :: int
  LeaseID :: int
  Attempts :: int
  MaxTries :: int
  NextAvailableAt :: int

record PollRequest =
  poll_WorkerID :: string

record EnqueueRequest =
  enq_Payload :: string

record AckRequest =
  ack_WorkerID :: string
  ack_JobID :: string
  ack_LeaseID :: int

record FailRequest =
  fail_WorkerID :: string
  fail_JobID :: string
  fail_LeaseID :: int

record broker =
  jobs :: "string \<rightharpoonup> Job"
  idem :: "string \<rightharpoonup> string"

definition init_broker :: broker where
  "init_broker = \<lparr>jobs = Map.empty, idem = Map.empty\<rparr>"

text \<open>
  What \<open>json.NewDecoder(r.Body).Decode(&req)\<close> gives: an error, or the request
  structure, in which a member the body leaves out keeps Go's zero value.
\<close>

datatype 'a decoded = DecodeError | Decoded 'a

text \<open>
  The body of an enqueue request as it arrives: bytes that do not decode, or a JSON
  object, with its \<open>payload\<close> member when it has one.
\<close>

datatype enqueue_body = NotJSON | JSONObject "string option"

fun decode_EnqueueRequest :: "enqueue_body \<Rightarrow> EnqueueRequest decoded" where
  "decode_EnqueueRequest NotJSON = DecodeError"
| "decode_EnqueueRequest (JSONObject None) = Decoded \<lparr>enq_Payload = ''''\<rparr>"
| "decode_EnqueueRequest (JSONObject (Some p)) = Decoded \<lparr>enq_Payload = p\<rparr>"

datatype status =
  StatusOK | StatusNoContent | StatusBadRequest | StatusNotFound
  | StatusMethodNotAllowed | StatusConflict

datatype body = EmptyBody | JobIDBody string | JobBody Job

text \<open>
  A handler answers with a status and a body, or panics (then \<open>net/http\<close> recovers,
  the deferred unlock runs and the client gets no response).
\<close>

datatype response = Response status body | HandlerPanic

datatype cond_op = Signal | Broadcast

type_synonym result = "response \<times> cond_op list \<times> broker"

section \<open>Retry delay\<close>

text \<open>The value of an \<open>int64\<close> computation whose exact result is \<open>x\<close>.\<close>

definition wrap64 :: "int \<Rightarrow> int" where
  "wrap64 x = (x + 2 ^ 63) mod 2 ^ 64 - 2 ^ 63"

datatype panic = Panic

text \<open>
  \<open>rand.Int63n(n)\<close> panics when \<open>n \<le> 0\<close>; otherwise it reduces the 63-bit
  value \<open>r\<close> it accepted from the source modulo \<open>n\<close>.
\<close>

definition Int63n :: "nat \<Rightarrow> int \<Rightarrow> panic + int" where
  "Int63n r n = (if n \<le> 0 then Inl Panic else Inr (int r mod n))"

definition base :: int where
  "base = 5"

definition capDelay :: int where
  "capDelay = 30"

definition retryDelaySeconds :: "int \<Rightarrow> nat \<Rightarrow> panic + int" where
  "retryDelaySeconds attempts0 r =
     (let attempts = (if attempts0 < 1 then 1 else attempts0);
          delay = wrap64 (base * 2 ^ nat (attempts - 1));
          delay = (if delay > capDelay then capDelay else delay)
      in Int63n r (delay + 1))"

section \<open>Lease sweeper\<close>

text \<open>
  \<open>expireLeases\<close> visits the jobs in the order \<open>ks\<close> that \<open>range\<close> happens to
  take (the keys of the map, each once; a string that is no key is passed over). It
  returns the identifiers it re-queued. It performs no operation on
  \<open>jobCond\<close>, and neither does the ticker goroutine that calls it.
\<close>

fun expire_loop :: "int \<Rightarrow> string list \<Rightarrow> (string \<rightharpoonup> Job) \<Rightarrow> string list
    \<Rightarrow> string list \<times> (string \<rightharpoonup> Job)" where
  "expire_loop now [] js expiredIDs = (expiredIDs, js)"
| "expire_loop now (k # ks) js expiredIDs =
     (case js k of
        None \<Rightarrow> expire_loop now ks js expiredIDs
      | Some job \<Rightarrow>
          if State job = StateLeased \<and> LeaseExpiresAt job > 0 \<and> LeaseExpiresAt job \<le> now
          then expire_loop now ks
                 (js(k \<mapsto> job\<lparr>State := StateQueued, LeaseOwner := '''',
                                LeaseExpiresAt := 0, NextAvailableAt := 0\<rparr>))
                 (expiredIDs @ [k])
          else expire_loop now ks js expiredIDs)"

definition expireLeases :: "int \<Rightarrow> string list \<Rightarrow> broker \<Rightarrow> string list \<times> cond_op list \<times> broker" where
  "expireLeases now ks s =
     (case expire_loop now ks (jobs s) [] of
        (expiredIDs, js) \<Rightarrow> (expiredIDs, [], s\<lparr>jobs := js\<rparr>))"

definition sweeper_tick :: "int \<Rightarrow> string list \<Rightarrow> broker \<Rightarrow> cond_op list \<times> broker" where
  "sweeper_tick now ks s = snd (expireLeases now ks s)"

section \<open>Enqueue\<close>

text \<open>
  The three critical sections of the \<open>/enqueue\<close> handler on the idempotency map.
  \<open>reserve\<close> is the look-up under \<open>idemMu\<close> at the start, \<open>release\<close> the
  clean-up after a body that does not decode, \<open>commit\<close> the store of the new
  identifier after the job is in \<open>jobs\<close>.
\<close>

datatype reservation = Fresh | InFlight | Committed string

definition reserve :: "string \<Rightarrow> (string \<rightharpoonup> string) \<Rightarrow> reservation \<times> (string \<rightharpoonup> string)" where
  "reserve idemKey m =
     (case m idemKey of
        Some existingID \<Rightarrow>
          if existingID \<noteq> ''PENDING'' then (Committed existingID, m) else (InFlight, m)
      | None \<Rightarrow> (Fresh, m(idemKey \<mapsto> ''PENDING'')))"

definition release :: "string \<Rightarrow> (string \<rightharpoonup> string) \<Rightarrow> (string \<rightharpoonup> string)" where
  "release idemKey m =
     (case m idemKey of
        Some existing \<Rightarrow> if existing = ''PENDING'' then m(idemKey := None) else m
      | None \<Rightarrow> m)"

definition commit :: "string \<Rightarrow> string \<Rightarrow> (string \<rightharpoonup> string) \<Rightarrow> (string \<rightharpoonup> string)" where
  "commit idemKey jid m = m(idemKey \<mapsto> jid)"

definition new_job :: "string \<Rightarrow> EnqueueRequest \<Rightarrow> Job" where
  "new_job jid req =
     \<lparr>ID = jid, Payload = enq_Payload req, State = StateQueued, LeaseOwner = '''',
      LeaseExpiresAt = 0, LeaseID = 0, Attempts = 0, MaxTries = 3, NextAvailableAt = 0\<rparr>"

text \<open>
  The handler in two parts. \<open>enqueue_begin\<close> is the method check and the
  reservation: it answers at once (\<open>Some\<close>) or lets the request go on
  (\<open>None\<close>). \<open>enqueue_finish\<close> is the rest: decoding, and then either the
  release of the reservation or the insertion of the job, the signal and the commit
  (both made while \<open>jobsMu\<close> is held). \<open>verb\<close> is \<open>r.Method\<close>,
  \<open>idemKey\<close> the \<open>Idempotency-Key\<close> header (empty when absent), \<open>req\<close> what
  decoding the body gives and \<open>jid\<close> the string \<open>uuid.NewString()\<close> returns.
  Between the two parts no mutex is held, and other requests may run.
\<close>

definition enqueue_begin :: "string \<Rightarrow> string \<Rightarrow> broker \<Rightarrow> response option \<times> broker" where
  "enqueue_begin verb idemKey s =
     (if verb \<noteq> ''POST'' then (Some (Response StatusMethodNotAllowed EmptyBody), s)
      else if idemKey \<noteq> '''' then
        (case reserve idemKey (idem s) of
           (Committed existingID, m) \<Rightarrow> (Some (Response StatusOK (JobIDBody existingID)), s)
         | (InFlight, m) \<Rightarrow> (Some (Response StatusConflict EmptyBody), s)
         | (Fresh, m) \<Rightarrow> (None, s\<lparr>idem := m\<rparr>))
      else (None, s))"

definition enqueue_finish :: "string \<Rightarrow> EnqueueRequest decoded \<Rightarrow> string \<Rightarrow> broker \<Rightarrow> result" where
  "enqueue_finish idemKey req jid s =
     (case req of
        DecodeError \<Rightarrow>
          (Response StatusBadRequest EmptyBody, [],
           if idemKey \<noteq> '''' then s\<lparr>idem := release idemKey (idem s)\<rparr> else s)
      | Decoded rq \<Rightarrow>
          (Response StatusOK (JobIDBody jid), [Signal],
           let s1 = s\<lparr>jobs := (jobs s)(jid \<mapsto> new_job jid rq)\<rparr>
           in if idemKey \<noteq> '''' then s1\<lparr>idem := commit idemKey jid (idem s1)\<rparr> else s1))"

text \<open>The handler run without interruption.\<close>

definition enqueue_handler :: "string \<Rightarrow> string \<Rightarrow> EnqueueRequest decoded \<Rightarrow> string \<Rightarrow> broker \<Rightarrow> result" where
  "enqueue_handler verb idemKey req jid s =
     (case enqueue_begin verb idemKey s of
        (Some resp, s1) \<Rightarrow> (resp, [], s1)
      | (None, s1) \<Rightarrow> enqueue_finish idemKey req jid s1)"

section \<open>Poll\<close>

definition eligible :: "int \<Rightarrow> Job \<Rightarrow> bool" where
  "eligible now job \<longleftrightarrow>
     State job = StateQueued \<and> (NextAvailableAt job = 0 \<or> NextAvailableAt job \<le> now)"

definition lease :: "string \<Rightarrow> int \<Rightarrow> Job \<Rightarrow> Job" where
  "lease worker now job =
     job\<lparr>State := StateLeased, LeaseOwner := worker, LeaseExpiresAt := now + 30,
         LeaseID := LeaseID job + 1\<rparr>"

text \<open>
  One pass of the inner \<open>range\<close> loop: the first eligible job in the order of the
  visit is leased and the loop is left.
\<close>

fun poll_scan :: "string \<Rightarrow> int \<Rightarrow> string list \<Rightarrow> (string \<rightharpoonup> Job)
    \<Rightarrow> (string \<times> Job \<times> (string \<rightharpoonup> Job)) option" where
  "poll_scan worker now [] js = None"
| "poll_scan worker now (k # ks) js =
     (case js k of
        None \<Rightarrow> poll_scan worker now ks js
      | Some job \<Rightarrow>
          if eligible now job
          then Some (k, lease worker now job, js(k \<mapsto> lease worker now job))
          else poll_scan worker now ks js)"

text \<open>
  One turn of the outer \<open>for\<close> loop, made while the handler holds \<open>jobsMu\<close>: the
  clock is read, the jobs are scanned, and when nothing is eligible the handler either
  gives up (\<open>remaining \<le> 0\<close>, the value of \<open>time.Until(deadline)\<close>) or waits on
  \<open>jobCond\<close> (the timer it starts before waiting signals \<open>jobCond\<close> when the
  deadline comes). While it waits the mutex is free and other handlers run, so what it
  sees at each wake-up is given from outside.
\<close>

datatype poll_outcome = Leased Job | NoJob | Wait

definition poll_turn :: "string \<Rightarrow> int \<Rightarrow> int \<Rightarrow> string list \<Rightarrow> broker \<Rightarrow> poll_outcome \<times> broker" where
  "poll_turn worker now remaining ks s =
     (case poll_scan worker now ks (jobs s) of
        Some (k, job, js) \<Rightarrow> (Leased job, s\<lparr>jobs := js\<rparr>)
      | None \<Rightarrow> if remaining \<le> 0 then (NoJob, s) else (Wait, s))"

record wakeup =
  at_now :: int
  at_remaining :: int
  at_order :: "string list"
  at_broker :: broker

text \<open>
  The whole loop over the wake-ups the handler lives through. It answers at the first
  turn that leases a job or finds the deadline passed; \<open>None\<close> says it is still
  waiting after the last wake-up listed.
\<close>

fun poll_loop :: "string \<Rightarrow> wakeup list \<Rightarrow> result option" where
  "poll_loop worker [] = None"
| "poll_loop worker (u # us) =
     (case poll_turn worker (at_now u) (at_remaining u) (at_order u) (at_broker u) of
        (Leased job, s) \<Rightarrow> Some (Response StatusOK (JobBody job), [], s)
      | (NoJob, s) \<Rightarrow> Some (Response StatusNoContent EmptyBody, [], s)
      | (Wait, s) \<Rightarrow> poll_loop worker us)"

text \<open>
  The handler: its first turn is made on the broker \<open>s\<close> it finds when it gets the
  mutex, the later ones on what the wake-ups \<open>us\<close> show.
\<close>

definition poll_handler :: "string \<Rightarrow> PollRequest decoded \<Rightarrow> int \<Rightarrow> int \<Rightarrow> string list \<Rightarrow> broker
    \<Rightarrow> wakeup list \<Rightarrow> result option" where
  "poll_handler verb req now remaining ks s us =
     (if verb \<noteq> ''POST'' then Some (Response StatusMethodNotAllowed EmptyBody, [], s)
      else
        case req of
          DecodeError \<Rightarrow> Some (Response StatusBadRequest EmptyBody, [], s)
        | Decoded rq \<Rightarrow>
            if poll_WorkerID rq = '''' then Some (Response StatusBadRequest EmptyBody, [], s)
            else
              poll_loop (poll_WorkerID rq)
                (\<lparr>at_now = now, at_remaining = remaining, at_order = ks, at_broker = s\<rparr> # us))"

section \<open>Ack and fail\<close>

definition ack_handler :: "string \<Rightarrow> AckRequest decoded \<Rightarrow> int \<Rightarrow> broker \<Rightarrow> result" where
  "ack_handler verb req now s =
     (if verb \<noteq> ''POST'' then (Response StatusMethodNotAllowed EmptyBody, [], s)
      else
        case req of
          DecodeError \<Rightarrow> (Response StatusBadRequest EmptyBody, [], s)
        | Decoded rq \<Rightarrow>
            if ack_WorkerID rq = '''' \<or> ack_JobID rq = ''''
            then (Response StatusBadRequest EmptyBody, [], s)
            else
              case jobs s (ack_JobID rq) of
                None \<Rightarrow> (Response StatusNotFound EmptyBody, [], s)
              | Some job \<Rightarrow>
                  if State job = StateDone then (Response StatusOK EmptyBody, [], s)
                  else if State job \<noteq> StateLeased \<or> LeaseOwner job \<noteq> ack_WorkerID rq
                  then (Response StatusConflict EmptyBody, [], s)
                  else if ack_LeaseID rq \<noteq> LeaseID job
                  then (Response StatusConflict EmptyBody, [], s)
                  else if LeaseExpiresAt job \<le> now
                  then (Response StatusConflict EmptyBody, [], s)
                  else
                    (Response StatusOK EmptyBody, [],
                     s\<lparr>jobs := (jobs s)(ack_JobID rq \<mapsto>
                          job\<lparr>State := StateDone, LeaseOwner := '''', LeaseExpiresAt := 0\<rparr>)\<rparr>))"

text \<open>
  In \<open>/fail\<close> the attempt is counted before the delay is computed, so a panic of
  \<open>retryDelaySeconds\<close> leaves the job leased with the attempt counted.
\<close>

definition fail_handler :: "string \<Rightarrow> FailRequest decoded \<Rightarrow> int \<Rightarrow> nat \<Rightarrow> broker \<Rightarrow> result" where
  "fail_handler verb req now r s =
     (if verb \<noteq> ''POST'' then (Response StatusMethodNotAllowed EmptyBody, [], s)
      else
        case req of
          DecodeError \<Rightarrow> (Response StatusBadRequest EmptyBody, [], s)
        | Decoded rq \<Rightarrow>
            if fail_WorkerID rq = '''' \<or> fail_JobID rq = ''''
            then (Response StatusBadRequest EmptyBody, [], s)
            else
              case jobs s (fail_JobID rq) of
                None \<Rightarrow> (Response StatusNotFound EmptyBody, [], s)
              | Some job \<Rightarrow>
                  if State job = StateDone then (Response StatusOK EmptyBody, [], s)
                  else if State job \<noteq> StateLeased \<or> LeaseOwner job \<noteq> fail_WorkerID rq
                  then (Response StatusConflict EmptyBody, [], s)
                  else if fail_LeaseID rq \<noteq> LeaseID job
                  then (Response StatusConflict EmptyBody, [], s)
                  else if LeaseExpiresAt job \<le> now
                  then (Response StatusConflict EmptyBody, [], s)
                  else
                    let job1 = job\<lparr>Attempts := Attempts job + 1\<rparr> in
                    if Attempts job1 \<ge> MaxTries job1
                    then
                      (Response StatusOK EmptyBody, [],
                       s\<lparr>jobs := (jobs s)(fail_JobID rq \<mapsto>
                            job1\<lparr>State := StateDead, LeaseOwner := '''',
                                 LeaseExpiresAt := 0, NextAvailableAt := 0\<rparr>)\<rparr>)
                    else
                      case retryDelaySeconds (Attempts job1) r of
                        Inl Panic \<Rightarrow>
                          (HandlerPanic, [], s\<lparr>jobs := (jobs s)(fail_JobID rq \<mapsto> job1)\<rparr>)
                      | Inr delay \<Rightarrow>
                          (Response StatusOK EmptyBody, [],
                           s\<lparr>jobs := (jobs s)(fail_JobID rq \<mapsto>
                                job1\<lparr>State := StateQueued, LeaseOwner := '''',
                                     LeaseExpiresAt := 0,
                                     NextAvailableAt := now + delay\<rparr>)\<rparr>))"

section \<open>The broker as a transition system\<close>

text \<open>
  Every step below is made under a mutex, so the runs of the broker are the sequences
  of these steps: the two parts of an enqueue request, one turn of a poll request's
  loop, an ack, a fail and a tick of the sweeper (\<open>/jobs\<close>, \<open>/dead\<close> and
  \<open>/health\<close> only read). The insertion and the commit of an enqueue are one step:
  \<open>jobsMu\<close> is held from the one to the other, and what can run in between, the
  first part of other enqueue requests, does not read the jobs and finds the key
  pending before and after.

  A step is enabled when what it takes from outside is what the program can get there:
  the second part of an enqueue with a key follows a reservation of that key that is
  still pending, a new identifier is a UUID string (36 characters) that is not in use,
  a poll turn belongs to a request with a worker identifier, and the order of a
  \<open>range\<close> visit lists every job once.
\<close>

datatype event =
    EnqueueBegin string string
  | EnqueueFinish string "EnqueueRequest decoded" string
  | PollTurn string int int "string list"
  | Ack string "AckRequest decoded" int
  | Fail string "FailRequest decoded" int nat
  | SweeperTick int "string list"

definition visits :: "string list \<Rightarrow> broker \<Rightarrow> bool" where
  "visits ks s \<longleftrightarrow> distinct ks \<and> set ks = dom (jobs s)"

fun enabled :: "event \<Rightarrow> broker \<Rightarrow> bool" where
  "enabled (EnqueueBegin verb idemKey) s = True"
| "enabled (EnqueueFinish idemKey req jid) s =
     ((idemKey = '''' \<or> idem s idemKey = Some ''PENDING'')
      \<and> jobs s jid = None \<and> length jid = 36)"
| "enabled (PollTurn worker now remaining ks) s = (worker \<noteq> '''' \<and> visits ks s)"
| "enabled (Ack verb req now) s = True"
| "enabled (Fail verb req now r) s = True"
| "enabled (SweeperTick now ks) s = visits ks s"

fun after :: "event \<Rightarrow> broker \<Rightarrow> broker" where
  "after (EnqueueBegin verb idemKey) s = snd (enqueue_begin verb idemKey s)"
| "after (EnqueueFinish idemKey req jid) s = snd (snd (enqueue_finish idemKey req jid s))"
| "after (PollTurn worker now remaining ks) s = snd (poll_turn worker now remaining ks s)"
| "after (Ack verb req now) s = snd (snd (ack_handler verb req now s))"
| "after (Fail verb req now r) s = snd (snd (fail_handler verb req now r s))"
| "after (SweeperTick now ks) s = snd (sweeper_tick now ks s)"

fun exec :: "event list \<Rightarrow> broker \<Rightarrow> broker option" where
  "exec [] s = Some s"
| "exec (e # es) s = (if enabled e s then exec es (after e s) else None)"

text \<open>The job a step leases, and how often a run leases a given job.\<close>

fun leased_by :: "event \<Rightarrow> broker \<Rightarrow> string option" where
  "leased_by (PollTurn worker now remaining ks) s =
     (case poll_scan worker now ks (jobs s) of Some (k, job, js) \<Rightarrow> Some k | None \<Rightarrow> None)"
| "leased_by e s = None"

fun lease_count :: "string \<Rightarrow> event list \<Rightarrow> broker \<Rightarrow> nat" where
  "lease_count jid [] s = 0"
| "lease_count jid (e # es) s =
     (if leased_by e s = Some jid then 1 else 0) + lease_count jid es (after e s)"

fun is_fail :: "event \<Rightarrow> bool" where
  "is_fail (Fail verb req now r) = True"
| "is_fail e = False"

section \<open>Invariants\<close>

definition job_inv :: "Job \<Rightarrow> bool" where
  "job_inv j \<longleftrightarrow>
     MaxTries j = 3 \<and> 0 \<le> Attempts j \<and> Attempts j \<le> MaxTries j
     \<and> (State j = StateDead \<longleftrightarrow> Attempts j = MaxTries j)"

definition broker_inv :: "broker \<Rightarrow> bool" where
  "broker_inv s \<longleftrightarrow>
     (\<forall>jid j. jobs s jid = Some j \<longrightarrow> ID j = jid \<and> length jid = 36 \<and> job_inv j)
     \<and> (\<forall>k v. idem s k = Some v \<longrightarrow> v \<noteq> ''PENDING'' \<longrightarrow> jobs s v \<noteq> None)"

text \<open>The test and the update the sweeper makes on one job.\<close>

definition expired :: "int \<Rightarrow> Job \<Rightarrow> bool" where
  "expired now job \<longleftrightarrow>
     State job = StateLeased \<and> LeaseExpiresAt job > 0 \<and> LeaseExpiresAt job \<le> now"

definition requeue :: "Job \<Rightarrow> Job" where
  "requeue job =
     job\<lparr>State := StateQueued, LeaseOwner := '''', LeaseExpiresAt := 0, NextAvailableAt := 0\<rparr>"

section \<open>Sample values\<close>

definition uuid_a :: string where
  "uuid_a = ''3f2b8c1e-7a4d-4e0b-9c55-0123456789ab''"

definition job_queued :: Job where
  "job_queued = new_job uuid_a \<lparr>enq_Payload = ''hello''\<rparr>"

definition job_leased :: Job where
  "job_leased = lease ''w1'' 100 job_queued"

definition job_done :: Job where
  "job_done = job_leased\<lparr>State := StateDone, LeaseOwner := '''', LeaseExpiresAt := 0\<rparr>"

definition uuid_b :: string where
  "uuid_b = ''9d1c0a77-52e3-4f6a-8b21-ba9876543210''"

definition job_failed_twice :: Job where
  "job_failed_twice =
     job_queued\<lparr>State := StateLeased, LeaseOwner := ''w1'', LeaseExpiresAt := 330,
                LeaseID := 3, Attempts := 2, NextAvailableAt := 208\<rparr>"

definition broker_of :: "Job \<Rightarrow> broker" where
  "broker_of j = \<lparr>jobs = [uuid_a \<mapsto> j], idem = [''K'' \<mapsto> uuid_a]\<rparr>"

definition ack_w1 :: AckRequest where
  "ack_w1 = \<lparr>ack_WorkerID = ''w1'', ack_JobID = uuid_a, ack_LeaseID = 1\<rparr>"

definition fail_w1 :: "int \<Rightarrow> FailRequest" where
  "fail_w1 n = \<lparr>fail_WorkerID = ''w1'', fail_JobID = uuid_a, fail_LeaseID = n\<rparr>"

definition run_enqueue :: "event list" where
  "run_enqueue =
     [EnqueueBegin ''POST'' ''K'',
      EnqueueFinish ''K'' (Decoded \<lparr>enq_Payload = ''hello''\<rparr>) uuid_a]"

definition run_lease :: "event list" where
  "run_lease = run_enqueue @ [PollTurn ''w1'' 100 30000000000 [uuid_a]]"

definition run_two_fails :: "event list" where
  "run_two_fails =
     run_lease @
     [Fail ''POST'' (Decoded (fail_w1 1)) 101 7,
      PollTurn ''w1'' 200 30000000000 [uuid_a],
      Fail ''POST'' (Decoded (fail_w1 2)) 201 7,
      PollTurn ''w1'' 300 30000000000 [uuid_a]]"

section \<open>Auxiliary facts\<close>

lemmas sample_defs = uuid_a_def uuid_b_def job_queued_def job_leased_def job_done_def
  job_failed_twice_def broker_of_def ack_w1_def fail_w1_def run_enqueue_def run_lease_def
  run_two_fails_def

lemmas handler_defs = enqueue_begin_def enqueue_finish_def enqueue_handler_def reserve_def
  release_def commit_def new_job_def poll_turn_def lease_def eligible_def ack_handler_def
  fail_handler_def sweeper_tick_def expireLeases_def visits_def init_broker_def
  retryDelaySeconds_def Int63n_def wrap64_def base_def capDelay_def

subsection \<open>Retry delay\<close>

lemma wrap64_id: "- (2 ^ 63) \<le> x \<Longrightarrow> x < 2 ^ 63 \<Longrightarrow> wrap64 x = x"
  by (simp add: wrap64_def)

lemma shift_small:
  assumes "n \<le> 60"
  shows "(5::int) * 2 ^ n < 2 ^ 63" 
proof -
  have "(2::int) ^ n \<le> 2 ^ 60" using assms by (intro power_increasing) simp_all
  then show ?thesis by simp
qed

lemma retryDelaySeconds_window:
  assumes "a \<le> 61"
  shows "retryDelaySeconds a r = Inr (int r mod (min (5 * 2 ^ nat (max a 1 - 1)) 30 + 1))"
proof -
  define n where "n = nat (max a 1 - 1)"
  define p :: int where "p = 5 * 2 ^ n"
  have n: "n \<le> 60" using assms by (simp add: n_def)
  have pos: "0 < p" by (simp add: p_def)
  have w: "wrap64 p = p"
    using shift_small [OF n] pos unfolding p_def by (intro wrap64_id) linarith+
  have arg: "nat ((if a < 1 then 1 else a) - 1) = n" by (simp add: n_def max_def)
  have "retryDelaySeconds a r = Int63n r ((if p > 30 then 30 else p) + 1)"
    unfolding retryDelaySeconds_def base_def capDelay_def Let_def arg p_def [symmetric] w ..
  also have "\<dots> = Inr (int r mod (min p 30 + 1))"
    using pos by (simp add: Int63n_def min_def)
  finally show ?thesis by (simp add: p_def n_def)
qed

lemma retryDelaySeconds_range:
  assumes "a \<le> 61"
  shows "\<exists>d. retryDelaySeconds a r = Inr d \<and> 0 \<le> d \<and> d \<le> min (5 * 2 ^ nat (max a 1 - 1)) 30"
proof -
  define w :: int where "w = min (5 * 2 ^ nat (max a 1 - 1)) 30"
  have "0 \<le> w" by (simp add: w_def)
  then have "0 < w + 1" by linarith
  then have "0 \<le> int r mod (w + 1)" "int r mod (w + 1) < w + 1"
    by (rule pos_mod_sign, rule pos_mod_bound)
  then have "0 \<le> int r mod (w + 1) \<and> int r mod (w + 1) \<le> w" by linarith
  then show ?thesis using retryDelaySeconds_window [OF assms, of r] unfolding w_def by blast
qed

lemma retryDelaySeconds_onto:
  assumes "a \<le> 61" "0 \<le> d" "d \<le> min (5 * 2 ^ nat (max a 1 - 1)) 30"
  shows "retryDelaySeconds a (nat d) = Inr d"
  using assms retryDelaySeconds_window [OF assms(1), of "nat d"] by simp

lemma wrap64_multiple:
  assumes "x mod 2 ^ 64 = 0"
  shows "wrap64 x = 0"
proof -
  have "(x + 2 ^ 63) mod 2 ^ 64 = (x mod 2 ^ 64 + 2 ^ 63) mod 2 ^ 64"
    by (simp only: mod_add_left_eq)
  also have "\<dots> = 2 ^ 63" using assms by simp
  finally show ?thesis by (simp add: wrap64_def)
qed

lemma retryDelaySeconds_large:
  assumes "65 \<le> a"
  shows "retryDelaySeconds a r = Inr 0"
proof -
  define n where "n = nat (a - 1)"
  have "64 \<le> n" using assms by (simp add: n_def)
  then obtain m where m: "n = 64 + m" using le_Suc_ex by blast
  have "(5::int) * 2 ^ n mod 2 ^ 64 = 0"
    by (simp add: m power_add)
  then have w: "wrap64 (5 * 2 ^ n) = 0" by (rule wrap64_multiple)
  have arg: "nat ((if a < 1 then 1 else a) - 1) = n" using assms by (simp add: n_def)
  show ?thesis
    unfolding retryDelaySeconds_def base_def capDelay_def Let_def arg w
    by (simp add: Int63n_def)
qed

text \<open>
  Beyond 61 attempts the shift leaves the range of \<open>int64\<close>: for 62 and for 64 the
  shifted delay is negative, the cap does not apply and \<open>rand.Int63n\<close> panics on an
  argument that is not positive; from 65 on the shift gives 0 and the delay is 0. The
  broker never calls the function there (see \<open>fail_never_panics\<close>).
\<close>

lemma retryDelaySeconds_overflow:
  "retryDelaySeconds 62 r = Inl Panic \<and> retryDelaySeconds 64 r = Inl Panic
   \<and> retryDelaySeconds 65 r = Inr 0 \<and> min (5 * 2 ^ nat (65 - 1)) 30 = (30::int)"
  by (simp add: retryDelaySeconds_def Int63n_def wrap64_def base_def capDelay_def)

text \<open>Each residue occurs equally often in a whole number of periods.\<close>

lemma card_residue:
  fixes n d m :: nat
  assumes "d < n"
  shows "card {r. r < m * n \<and> r mod n = d} = m"
proof -
  have "{r. r < m * n \<and> r mod n = d} = (\<lambda>q. q * n + d) ` {..<m}"
  proof (intro set_eqI iffI)
    fix r
    assume "r \<in> {r. r < m * n \<and> r mod n = d}"
    then have r: "r < m * n" "r mod n = d" by simp_all
    have npos: "0 < n" using assms by simp
    have "r div n < m" using r(1) npos by (simp add: less_mult_imp_div_less)
    moreover have "r = (r div n) * n + d" using r(2) by (metis div_mult_mod_eq)
    ultimately show "r \<in> (\<lambda>q. q * n + d) ` {..<m}" by blast
  next
    fix r
    assume "r \<in> (\<lambda>q. q * n + d) ` {..<m}"
    then obtain q where q: "q < m" "r = q * n + d" by blast
    have "q * n + d < m * n"
    proof -
      have "Suc q \<le> m" using q(1) by simp
      then have "Suc q * n \<le> m * n" by (rule mult_le_mono1)
      then show ?thesis using assms by simp
    qed
    moreover have "(q * n + d) mod n = d" using assms by simp
    ultimately show "r \<in> {r. r < m * n \<and> r mod n = d}" using q(2) by simp
  qed
  moreover have "inj_on (\<lambda>q. q * n + d) {..<m}"
    using assms by (auto simp: inj_on_def)
  ultimately show ?thesis by (simp add: card_image)
qed

subsection \<open>Scans\<close>

lemma poll_scan_Some:
  "poll_scan w now ks js = Some (k, job, js') \<Longrightarrow>
     \<exists>j. js k = Some j \<and> eligible now j \<and> job = lease w now j \<and> js' = js(k \<mapsto> job) \<and> k \<in> set ks"
  by (induction ks) (auto split: option.splits if_splits)

lemma poll_scan_None:
  "poll_scan w now ks js = None \<Longrightarrow> k \<in> set ks \<Longrightarrow> js k = Some j \<Longrightarrow> \<not> eligible now j"
  by (induction ks) (auto split: option.splits if_splits)

lemma not_expired_requeue [simp]: "\<not> expired now (requeue j)"
  by (simp add: expired_def requeue_def)

lemma expire_loop_jobs:
  "snd (expire_loop now ks js acc) k =
     (case js k of None \<Rightarrow> None
      | Some j \<Rightarrow> if k \<in> set ks \<and> expired now j then Some (requeue j) else Some j)"
proof (induction ks arbitrary: js acc)
  case Nil
  then show ?case by (simp split: option.splits)
next
  case (Cons a ks)
  show ?case
  proof (cases "js a")
    case None
    then show ?thesis by (auto simp: Cons.IH split: option.splits)
  next
    case (Some j)
    show ?thesis
    proof (cases "expired now j")
      case True
      then have "expire_loop now (a # ks) js acc = expire_loop now ks (js(a \<mapsto> requeue j)) (acc @ [a])"
        using Some by (simp add: expired_def requeue_def)
      then show ?thesis using Some True by (auto simp: Cons.IH split: option.splits)
    next
      case False
      then have "expire_loop now (a # ks) js acc = expire_loop now ks js acc"
        using Some by (auto simp: expired_def)
      then show ?thesis using Some False by (auto simp: Cons.IH split: option.splits)
    qed
  qed
qed

subsection \<open>Handlers\<close>

lemma sweeper_tick_no_signal: "fst (sweeper_tick now ks s) = []"
  by (simp add: sweeper_tick_def expireLeases_def split: prod.splits)

text \<open>
  A fail request that does not pass the checks is answered as the ack request with the
  same fields is, and like it changes nothing.
\<close>

lemma fail_rejects_as_ack:
  assumes "\<not> (\<exists>job. jobs s (fail_JobID rq) = Some job \<and> State job = StateLeased
               \<and> LeaseOwner job = fail_WorkerID rq \<and> fail_LeaseID rq = LeaseID job
               \<and> now < LeaseExpiresAt job)"
  shows "fail_handler verb (Decoded rq) now r s
         = ack_handler verb (Decoded \<lparr>ack_WorkerID = fail_WorkerID rq, ack_JobID = fail_JobID rq,
                                     ack_LeaseID = fail_LeaseID rq\<rparr>) now s
       \<and> snd (snd (fail_handler verb (Decoded rq) now r s)) = s"
  using assms by (auto simp: fail_handler_def ack_handler_def split: option.splits)

subsection \<open>Steps\<close>

lemma jobs_after_EnqueueBegin [simp]:
  "jobs (snd (enqueue_begin verb idemKey s)) = jobs s"
  by (simp add: enqueue_begin_def reserve_def split: option.splits)

lemma jobs_after_EnqueueFinish:
  "jobs (snd (snd (enqueue_finish idemKey req jid s))) =
     (case req of DecodeError \<Rightarrow> jobs s | Decoded rq \<Rightarrow> (jobs s)(jid \<mapsto> new_job jid rq))"
  by (simp add: enqueue_finish_def Let_def split: decoded.splits)

lemma jobs_after_PollTurn:
  "jobs (snd (poll_turn worker now remaining ks s)) =
     (case poll_scan worker now ks (jobs s) of None \<Rightarrow> jobs s | Some (k, job, js) \<Rightarrow> js)"
  by (simp add: poll_turn_def split: option.splits)

lemma jobs_after_SweeperTick:
  "jobs (snd (sweeper_tick now ks s)) k =
     (case jobs s k of None \<Rightarrow> None
      | Some j \<Rightarrow> if k \<in> set ks \<and> expired now j then Some (requeue j) else Some j)"
proof -
  have "jobs (snd (sweeper_tick now ks s)) = snd (expire_loop now ks (jobs s) [])"
    by (simp add: sweeper_tick_def expireLeases_def split: prod.splits)
  then show ?thesis by (simp add: expire_loop_jobs)
qed

text \<open>What one ack or fail does to the job it names, and that it touches no other.\<close>

lemma jobs_after_Ack_other:
  "jobs s jid = Some j \<Longrightarrow> (\<forall>rq. req = Decoded rq \<longrightarrow> ack_JobID rq \<noteq> jid) \<Longrightarrow>
     jobs (snd (snd (ack_handler verb req now s))) jid = Some j"
  by (auto simp: ack_handler_def split: decoded.splits option.splits)

lemma jobs_after_Ack_same:
  "jobs s (ack_JobID rq) = Some j \<Longrightarrow>
     jobs (snd (snd (ack_handler verb (Decoded rq) now s))) (ack_JobID rq) = Some j
     \<or> (State j = StateLeased \<and>
         jobs (snd (snd (ack_handler verb (Decoded rq) now s))) (ack_JobID rq)
           = Some (j\<lparr>State := StateDone, LeaseOwner := '''', LeaseExpiresAt := 0\<rparr>))"
  by (auto simp: ack_handler_def)

lemma jobs_after_Fail_other:
  "jobs s jid = Some j \<Longrightarrow> (\<forall>rq. req = Decoded rq \<longrightarrow> fail_JobID rq \<noteq> jid) \<Longrightarrow>
     jobs (snd (snd (fail_handler verb req now r s))) jid = Some j"
  by (auto simp: fail_handler_def Let_def split: decoded.splits option.splits sum.splits panic.splits)

lemma jobs_after_Fail_same:
  "jobs s (fail_JobID rq) = Some j \<Longrightarrow>
     jobs (snd (snd (fail_handler verb (Decoded rq) now r s))) (fail_JobID rq) = Some j
     \<or> (State j = StateLeased \<and>
         (\<exists>j'. jobs (snd (snd (fail_handler verb (Decoded rq) now r s))) (fail_JobID rq) = Some j'
            \<and> Attempts j' = Attempts j + 1 \<and> MaxTries j' = MaxTries j \<and> ID j' = ID j
            \<and> LeaseID j' = LeaseID j
            \<and> (if MaxTries j \<le> Attempts j + 1 then State j' = StateDead
                else State j' = StateLeased \<or> State j' = StateQueued)))"
  by (auto simp: fail_handler_def Let_def split: sum.splits panic.splits)


text \<open>
  What one step does to a job that exists before it: the job stays, its attempts change
  only in a fail and then by one, its lease identifier changes only when the step leases
  it and then by one, and a job that is DONE or DEAD is left as it is.
\<close>

lemma step_job:
  assumes "enabled e s" and "jobs s jid = Some j"
  shows "\<exists>j'. jobs (after e s) jid = Some j'
           \<and> (Attempts j' = Attempts j \<or> (is_fail e \<and> State j = StateLeased \<and> Attempts j' = Attempts j + 1))
           \<and> LeaseID j' = (if leased_by e s = Some jid then LeaseID j + 1 else LeaseID j)
           \<and> MaxTries j' = MaxTries j \<and> ID j' = ID j
           \<and> (State j = StateDone \<or> State j = StateDead \<longrightarrow> j' = j)
           \<and> (job_inv j \<longrightarrow> job_inv j')"
proof (cases e)
  case (EnqueueBegin verb idemKey)
  then show ?thesis using assms by simp
next
  case (EnqueueFinish idemKey req k)
  then have "k \<noteq> jid" using assms by auto
  then show ?thesis using assms EnqueueFinish
    by (simp add: jobs_after_EnqueueFinish split: decoded.splits)
next
  case (PollTurn worker now remaining ks)
  show ?thesis
  proof (cases "poll_scan worker now ks (jobs s)")
    case None
    then show ?thesis using assms PollTurn by (simp add: jobs_after_PollTurn)
  next
    case (Some t)
    then obtain k job js where sc: "poll_scan worker now ks (jobs s) = Some (k, job, js)"
      by (cases t) auto
    from poll_scan_Some [OF sc] obtain j0 where
      j0: "jobs s k = Some j0" "eligible now j0" "job = lease worker now j0" "js = (jobs s)(k \<mapsto> job)"
      by blast
    show ?thesis
    proof (cases "k = jid")
      case True
      then have "j0 = j" using j0 assms by simp
      then show ?thesis using True j0 sc PollTurn
        by (auto simp: jobs_after_PollTurn lease_def eligible_def job_inv_def)
    next
      case False
      then show ?thesis using j0 sc PollTurn assms
        by (auto simp: jobs_after_PollTurn)
    qed
  qed
next
  case (Ack verb req now)
  show ?thesis
  proof (cases "\<exists>rq. req = Decoded rq \<and> ack_JobID rq = jid")
    case True
    then obtain rq where rq: "req = Decoded rq" "ack_JobID rq = jid" by blast
    from jobs_after_Ack_same [of s rq j verb now] assms rq Ack
    show ?thesis by (auto simp: job_inv_def)
  next
    case False
    then show ?thesis using jobs_after_Ack_other [of s jid j req verb now] assms Ack by auto
  qed
next
  case (Fail verb req now r)
  show ?thesis
  proof (cases "\<exists>rq. req = Decoded rq \<and> fail_JobID rq = jid")
    case True
    then obtain rq where rq: "req = Decoded rq" "fail_JobID rq = jid" by blast
    from jobs_after_Fail_same [of s rq j verb now r] assms rq Fail
    show ?thesis by (auto simp: job_inv_def split: if_splits)
  next
    case False
    then show ?thesis using jobs_after_Fail_other [of s jid j req verb now r] assms Fail by auto
  qed
next
  case (SweeperTick now ks)
  then show ?thesis using assms
    by (auto simp: jobs_after_SweeperTick requeue_def expired_def job_inv_def)
qed

text \<open>A step creates at most the job of an enqueue, with lease identifier 0.\<close>

lemma step_new_job:
  assumes "enabled e s" and "jobs s jid = None"
  shows "leased_by e s \<noteq> Some jid
         \<and> (jobs (after e s) jid = None
            \<or> (length jid = 36 \<and> (\<exists>rq. jobs (after e s) jid = Some (new_job jid rq))))"
proof (cases e)
  case (EnqueueBegin verb idemKey)
  then show ?thesis using assms by simp
next
  case (EnqueueFinish idemKey req k)
  then show ?thesis using assms
    by (auto simp: jobs_after_EnqueueFinish split: decoded.splits)
next
  case (PollTurn worker now remaining ks)
  show ?thesis
  proof (cases "poll_scan worker now ks (jobs s)")
    case None
    then show ?thesis using assms PollTurn by (simp add: jobs_after_PollTurn)
  next
    case (Some t)
    then obtain k job js where sc: "poll_scan worker now ks (jobs s) = Some (k, job, js)"
      by (cases t) auto
    from poll_scan_Some [OF sc] assms have "k \<noteq> jid" "js = (jobs s)(k \<mapsto> job)" by auto
    then show ?thesis using sc PollTurn assms by (simp add: jobs_after_PollTurn)
  qed
next
  case (Ack verb req now)
  then show ?thesis using assms
    by (auto simp: ack_handler_def split: decoded.splits option.splits)
next
  case (Fail verb req now r)
  then show ?thesis using assms
    by (auto simp: fail_handler_def Let_def split: decoded.splits option.splits sum.splits panic.splits)
next
  case (SweeperTick now ks)
  then show ?thesis using assms by (simp add: jobs_after_SweeperTick)
qed

subsection \<open>Invariant\<close>

lemma job_inv_new_job [simp]: "job_inv (new_job jid rq)"
  by (simp add: job_inv_def new_job_def)

lemma idem_after_unchanged:
  "idem (snd (poll_turn worker now remaining ks s)) = idem s"
  "idem (snd (snd (ack_handler verb areq now s))) = idem s"
  "idem (snd (snd (fail_handler verb freq now r s))) = idem s"
  "idem (snd (sweeper_tick now ks s)) = idem s"
     apply (simp add: poll_turn_def split: option.splits)
    apply (simp add: ack_handler_def split: decoded.splits option.splits)
   apply (simp add: fail_handler_def Let_def split: decoded.splits option.splits sum.splits panic.splits)
  apply (simp add: sweeper_tick_def expireLeases_def split: prod.splits)
  done

lemma idem_after_EnqueueBegin:
  "idem (snd (enqueue_begin verb idemKey s)) k =
     (if verb = ''POST'' \<and> idemKey \<noteq> '''' \<and> k = idemKey \<and> idem s idemKey = None
      then Some ''PENDING'' else idem s k)"
  by (simp add: enqueue_begin_def reserve_def split: option.splits)

lemma idem_after_EnqueueFinish:
  "idem (snd (snd (enqueue_finish idemKey req jid s))) k =
     (if idemKey \<noteq> '''' \<and> k = idemKey
      then (case req of
              DecodeError \<Rightarrow> if idem s k = Some ''PENDING'' then None else idem s k
            | Decoded rq \<Rightarrow> Some jid)
      else idem s k)"
  by (auto simp: enqueue_finish_def release_def commit_def Let_def split: decoded.splits option.splits)

text \<open>An entry of the registry that holds a job identifier is never changed again.\<close>

lemma committed_stays:
  assumes "enabled e s" and "idem s k = Some v" and "v \<noteq> ''PENDING''"
  shows "idem (after e s) k = Some v"
proof (cases e)
  case (EnqueueBegin verb idemKey)
  then show ?thesis using assms by (auto simp: idem_after_EnqueueBegin)
next
  case (EnqueueFinish idemKey req jid)
  then show ?thesis using assms by (auto simp: idem_after_EnqueueFinish)
qed (use assms in \<open>simp_all add: idem_after_unchanged\<close>)

lemma broker_inv_step:
  assumes "broker_inv s" and "enabled e s"
  shows "broker_inv (after e s)"
proof -
  have J: "ID j' = jid \<and> length jid = 36 \<and> job_inv j'" if "jobs (after e s) jid = Some j'" for jid j'
  proof (cases "jobs s jid")
    case None
    from step_new_job [OF assms(2) None] that show ?thesis
      by (auto simp: new_job_def job_inv_def)
  next
    case (Some j)
    from step_job [OF assms(2) Some] that assms(1) Some show ?thesis
      by (auto simp: broker_inv_def)
  qed
  have keeps: "jobs (after e s) v \<noteq> None" if "jobs s v \<noteq> None" for v
    using step_job [OF assms(2)] that by fastforce
  have old: "jobs (after e s) v \<noteq> None" if "idem s k = Some v" "v \<noteq> ''PENDING''" for k v
    using assms(1) that keeps by (auto simp: broker_inv_def)
  have I: "jobs (after e s) v \<noteq> None" if "idem (after e s) k = Some v" "v \<noteq> ''PENDING''" for k v
  proof (cases e)
    case (EnqueueBegin verb idemKey)
    then have "idem s k = Some v" using that by (simp add: idem_after_EnqueueBegin split: if_splits)
    then show ?thesis using that old by blast
  next
    case (EnqueueFinish idemKey req jid)
    then have "idem s k = Some v \<or> (v = jid \<and> (\<exists>rq. req = Decoded rq))"
      using that by (auto simp: idem_after_EnqueueFinish split: if_splits decoded.splits)
    then show ?thesis
    proof
      assume "idem s k = Some v"
      then show ?thesis using that old by blast
    next
      assume "v = jid \<and> (\<exists>rq. req = Decoded rq)"
      then show ?thesis using EnqueueFinish by (auto simp: jobs_after_EnqueueFinish)
    qed
  next
    case (PollTurn worker now remaining ks)
    then have "idem s k = Some v" using that by (simp add: idem_after_unchanged)
    then show ?thesis using that old by blast
  next
    case (Ack verb req now)
    then have "idem s k = Some v" using that by (simp add: idem_after_unchanged)
    then show ?thesis using that old by blast
  next
    case (Fail verb req now r)
    then have "idem s k = Some v" using that by (simp add: idem_after_unchanged)
    then show ?thesis using that old by blast
  next
    case (SweeperTick now ks)
    then have "idem s k = Some v" using that by (simp add: idem_after_unchanged)
    then show ?thesis using that old by blast
  qed
  show ?thesis unfolding broker_inv_def using J I by blast
qed

lemma broker_inv_init: "broker_inv init_broker"
  by (simp add: broker_inv_def init_broker_def)

lemma broker_inv_exec:
  "exec es s = Some s' \<Longrightarrow> broker_inv s \<Longrightarrow> broker_inv s'"
  by (induction es arbitrary: s) (auto simp: broker_inv_step split: if_splits)

lemma committed_stays_exec:
  "exec es s = Some s' \<Longrightarrow> idem s k = Some v \<Longrightarrow> v \<noteq> ''PENDING'' \<Longrightarrow> idem s' k = Some v"
  by (induction es arbitrary: s) (auto simp: committed_stays split: if_splits)

subsection \<open>Lease counts\<close>

lemma lease_count_exec:
  "exec es s0 = Some s \<Longrightarrow>
     (case jobs s0 jid of
        Some j0 \<Rightarrow> \<exists>j. jobs s jid = Some j \<and> LeaseID j = LeaseID j0 + int (lease_count jid es s0)
      | None \<Rightarrow> \<forall>j. jobs s jid = Some j \<longrightarrow> LeaseID j = int (lease_count jid es s0))"
proof (induction es arbitrary: s0)
  case Nil
  then show ?case by (auto split: option.splits)
next
  case (Cons e es)
  then have en: "enabled e s0" and ex: "exec es (after e s0) = Some s"
    by (auto split: if_splits)
  note IH = Cons.IH [OF ex]
  show ?case
  proof (cases "jobs s0 jid")
    case None
    from step_new_job [OF en None] have nl: "leased_by e s0 \<noteq> Some jid"
      and new: "jobs (after e s0) jid = None \<or> (\<exists>rq. jobs (after e s0) jid = Some (new_job jid rq))"
      by auto
    from new show ?thesis
    proof
      assume "jobs (after e s0) jid = None"
      then show ?thesis using IH None nl by simp
    next
      assume "\<exists>rq. jobs (after e s0) jid = Some (new_job jid rq)"
      then obtain rq where "jobs (after e s0) jid = Some (new_job jid rq)" by blast
      then show ?thesis using IH None nl by (auto simp: new_job_def)
    qed
  next
    case (Some j0)
    from step_job [OF en Some] obtain j1 where
      "jobs (after e s0) jid = Some j1"
      "LeaseID j1 = (if leased_by e s0 = Some jid then LeaseID j0 + 1 else LeaseID j0)"
      by blast
    then show ?thesis using IH Some by auto
  qed
qed

subsection \<open>Enqueue requests with a key\<close>

lemma enqueue_handler_committed:
  assumes "idemKey \<noteq> ''''" and "idem s idemKey = Some J" and "J \<noteq> ''PENDING''"
  shows "enqueue_handler ''POST'' idemKey req jid s = (Response StatusOK (JobIDBody J), [], s)"
  using assms by (simp add: enqueue_handler_def enqueue_begin_def reserve_def)

text \<open>
  An enqueue request with a key that answers with a job identifier leaves this
  identifier in the registry under the key, and is either a look-up or the two parts
  run one after the other.
\<close>

lemma enqueue_handler_answers_id:
  assumes "idemKey \<noteq> ''''"
    and "enqueue_handler ''POST'' idemKey req jid s = (Response StatusOK (JobIDBody J), sigs, s1)"
    and "jobs s jid = None" and "length jid = 36"
  shows "idem s1 idemKey = Some J \<and> J \<noteq> ''PENDING''
         \<and> (s1 = s \<or> exec [EnqueueBegin ''POST'' idemKey, EnqueueFinish idemKey req jid] s = Some s1)"
proof (cases "idem s idemKey")
  case None
  then obtain rq where rq: "req = Decoded rq"
    using assms(1,2)
    by (cases req) (auto simp: enqueue_handler_def enqueue_begin_def enqueue_finish_def reserve_def)
  have b: "enqueue_begin ''POST'' idemKey s = (None, s\<lparr>idem := (idem s)(idemKey \<mapsto> ''PENDING'')\<rparr>)"
    using None assms(1) by (simp add: enqueue_begin_def reserve_def)
  then have h: "enqueue_handler ''POST'' idemKey req jid s
      = enqueue_finish idemKey req jid (snd (enqueue_begin ''POST'' idemKey s))"
    by (simp add: enqueue_handler_def)
  have J: "J = jid" and s1: "s1 = snd (snd (enqueue_finish idemKey req jid (snd (enqueue_begin ''POST'' idemKey s))))"
    using assms(2) h rq by (auto simp: enqueue_finish_def Let_def)
  have "idem s1 idemKey = Some J"
    using assms(1) rq by (simp add: s1 J idem_after_EnqueueFinish)
  moreover have "J \<noteq> ''PENDING''" using assms(4) J by auto
  moreover have "exec [EnqueueBegin ''POST'' idemKey, EnqueueFinish idemKey req jid] s = Some s1"
    using assms(3,4) b s1 by simp
  ultimately show ?thesis by blast
next
  case (Some v)
  show ?thesis
  proof (cases "v = ''PENDING''")
    case True
    then show ?thesis using Some assms(1,2)
      by (simp add: enqueue_handler_def enqueue_begin_def reserve_def)
  next
    case False
    from enqueue_handler_committed [OF assms(1) Some False, of req jid] assms(2)
    have "J = v" "s1 = s" by simp_all
    then show ?thesis using Some False by simp
  qed
qed

lemma enqueue_finish_answers_id:
  assumes "idemKey \<noteq> ''''"
    and "enabled (EnqueueFinish idemKey req jid) s"
    and "enqueue_finish idemKey req jid s = (Response StatusOK (JobIDBody J), sigs, s1)"
  shows "idem s1 idemKey = Some J \<and> J \<noteq> ''PENDING''
         \<and> exec [EnqueueFinish idemKey req jid] s = Some s1"
proof -
  obtain rq where rq: "req = Decoded rq"
    using assms(3) by (cases req) (auto simp: enqueue_finish_def)
  have J: "J = jid" and s1: "s1 = snd (snd (enqueue_finish idemKey req jid s))"
    using assms(3) rq by (auto simp: enqueue_finish_def Let_def)
  have "idem s1 idemKey = Some J"
    using assms(1) rq by (simp add: s1 J idem_after_EnqueueFinish)
  moreover have "J \<noteq> ''PENDING''" using assms(2) J by auto
  moreover have "exec [EnqueueFinish idemKey req jid] s = Some s1"
    using assms(2) s1 by simp
  ultimately show ?thesis by blast
qed

subsection \<open>Sample runs\<close>

lemma exec_run_enqueue: "exec run_enqueue init_broker = Some (broker_of job_queued)"
  by (simp add: sample_defs handler_defs)

lemma exec_run_lease: "exec run_lease init_broker = Some (broker_of job_leased)"
  by (simp add: sample_defs handler_defs)

lemma exec_run_two_fails: "exec run_two_fails init_broker = Some (broker_of job_failed_twice)"
  by (simp add: sample_defs handler_defs)

lemma reachable_inv: "exec es init_broker = Some s \<Longrightarrow> broker_inv s"
  using broker_inv_exec broker_inv_init by blast

text \<open>
  In a broker reached by a run \<open>/fail\<close> calls \<open>retryDelaySeconds\<close> with 1 or 2 only
  (every job has \<open>MaxTries = 3\<close> and the call comes after the DEAD test), so the
  handler does not panic.
\<close>

lemma fail_never_panics:
  assumes "exec es init_broker = Some s"
  shows "fst (fail_handler verb req now r s) \<noteq> HandlerPanic"
proof -
  have inv: "broker_inv s" using assms by (rule reachable_inv)
  have ok: "retryDelaySeconds (Attempts job + 1) r \<noteq> Inl Panic"
    if "jobs s k = Some job" "\<not> MaxTries job \<le> Attempts job + 1" for k job
  proof -
    have "job_inv job" using inv that(1) by (auto simp: broker_inv_def)
    then have "Attempts job + 1 \<le> 61" by (simp add: job_inv_def)
    from retryDelaySeconds_range [OF this, of r] show ?thesis by auto
  qed
  show ?thesis
    by (auto simp: fail_handler_def Let_def dest: ok
        split: decoded.splits option.splits sum.splits panic.splits)
qed

section \<open>The claims\<close>

text \<open>
  C1. For a request that passes the handler's own gate (verb POST, a body that
  decodes, worker and job identifiers not empty), \<open>/ack\<close> checks in this order and
  answers at the first check that fails: an unknown job gives 404; a job that is DONE
  gives 200; a job that is not LEASED or is leased to another worker gives 409; a lease
  identifier other than the job's gives 409; a lease that expires at or before now gives
  409. Otherwise it answers 200, the job becomes DONE with owner and expiry cleared,
  and attempts, lease identifier and next-available time (and every other job, and the
  idempotency map) stay as they were.
\<close>

theorem ack_validation_order:
  assumes "ack_WorkerID rq \<noteq> ''''" and "ack_JobID rq \<noteq> ''''"
  shows "(jobs s (ack_JobID rq) = None \<longrightarrow>
            ack_handler ''POST'' (Decoded rq) now s = (Response StatusNotFound EmptyBody, [], s))
       \<and> (\<forall>job. jobs s (ack_JobID rq) = Some job \<longrightarrow>
            (State job = StateDone \<longrightarrow>
               ack_handler ''POST'' (Decoded rq) now s = (Response StatusOK EmptyBody, [], s))
          \<and> (State job \<noteq> StateDone
               \<and> (State job \<noteq> StateLeased \<or> LeaseOwner job \<noteq> ack_WorkerID rq) \<longrightarrow>
               ack_handler ''POST'' (Decoded rq) now s = (Response StatusConflict EmptyBody, [], s))
          \<and> (State job = StateLeased \<and> LeaseOwner job = ack_WorkerID rq
               \<and> ack_LeaseID rq \<noteq> LeaseID job \<longrightarrow>
               ack_handler ''POST'' (Decoded rq) now s = (Response StatusConflict EmptyBody, [], s))
          \<and> (State job = StateLeased \<and> LeaseOwner job = ack_WorkerID rq
               \<and> ack_LeaseID rq = LeaseID job \<and> LeaseExpiresAt job \<le> now \<longrightarrow>
               ack_handler ''POST'' (Decoded rq) now s = (Response StatusConflict EmptyBody, [], s))
          \<and> (State job = StateLeased \<and> LeaseOwner job = ack_WorkerID rq
               \<and> ack_LeaseID rq = LeaseID job \<and> now < LeaseExpiresAt job \<longrightarrow>
               (\<exists>job'. ack_handler ''POST'' (Decoded rq) now s =
                    (Response StatusOK EmptyBody, [],
                     s\<lparr>jobs := (jobs s)(ack_JobID rq \<mapsto> job')\<rparr>)
                  \<and> State job' = StateDone \<and> LeaseOwner job' = '''' \<and> LeaseExpiresAt job' = 0
                  \<and> Attempts job' = Attempts job \<and> LeaseID job' = LeaseID job
                  \<and> NextAvailableAt job' = NextAvailableAt job
                  \<and> ID job' = ID job \<and> Payload job' = Payload job
                  \<and> MaxTries job' = MaxTries job)))"
  using assms by (auto simp: ack_handler_def)

theorem ack_validation_order_witness:
  "ack_WorkerID ack_w1 \<noteq> '''' \<and> ack_JobID ack_w1 \<noteq> ''''
   \<and> jobs (broker_of job_leased) (ack_JobID ack_w1) = Some job_leased
   \<and> State job_leased = StateLeased \<and> LeaseOwner job_leased = ack_WorkerID ack_w1
   \<and> ack_LeaseID ack_w1 = LeaseID job_leased \<and> 100 < LeaseExpiresAt job_leased
   \<and> (\<exists>job'. ack_handler ''POST'' (Decoded ack_w1) 100 (broker_of job_leased) =
          (Response StatusOK EmptyBody, [],
           (broker_of job_leased)\<lparr>jobs := (jobs (broker_of job_leased))(ack_JobID ack_w1 \<mapsto> job')\<rparr>)
        \<and> State job' = StateDone \<and> LeaseOwner job' = '''' \<and> LeaseExpiresAt job' = 0
        \<and> Attempts job' = 0 \<and> LeaseID job' = 1 \<and> NextAvailableAt job' = 0)"
proof -
  have wf: "ack_WorkerID ack_w1 \<noteq> ''''" "ack_JobID ack_w1 \<noteq> ''''"
    by (simp_all add: sample_defs)
  have pre: "jobs (broker_of job_leased) (ack_JobID ack_w1) = Some job_leased"
    "State job_leased = StateLeased" "LeaseOwner job_leased = ack_WorkerID ack_w1"
    "ack_LeaseID ack_w1 = LeaseID job_leased" "100 < LeaseExpiresAt job_leased"
    by (simp_all add: sample_defs lease_def new_job_def)
  have vals: "Attempts job_leased = 0" "LeaseID job_leased = 1" "NextAvailableAt job_leased = 0"
    by (simp_all add: sample_defs lease_def new_job_def)
  from ack_validation_order [OF wf, of "broker_of job_leased" 100] pre
  obtain job' where "ack_handler ''POST'' (Decoded ack_w1) 100 (broker_of job_leased) =
          (Response StatusOK EmptyBody, [],
           (broker_of job_leased)\<lparr>jobs := (jobs (broker_of job_leased))(ack_JobID ack_w1 \<mapsto> job')\<rparr>)
        \<and> State job' = StateDone \<and> LeaseOwner job' = '''' \<and> LeaseExpiresAt job' = 0
        \<and> Attempts job' = Attempts job_leased \<and> LeaseID job' = LeaseID job_leased
        \<and> NextAvailableAt job' = NextAvailableAt job_leased"
    by blast
  then show ?thesis using wf pre vals by auto
qed

text \<open>
  C2. A poll request with a worker identifier, made when some job is eligible (QUEUED
  with next-available time zero or not after now), leases exactly one eligible job at
  its first turn: in the broker that job, and no other, is replaced by its copy with
  state LEASED, the worker as owner, expiry \<open>now + 30\<close> and the lease identifier
  raised by one, and the response carries this copy. No turn of a poll changes a job
  that is not eligible.
\<close>

theorem poll_leases_one_eligible_job:
  assumes "worker \<noteq> ''''" and "visits ks s"
  shows "((\<exists>k0 j0. jobs s k0 = Some j0 \<and> eligible now j0) \<longrightarrow>
            (\<exists>k j. jobs s k = Some j \<and> State j = StateQueued
               \<and> (NextAvailableAt j = 0 \<or> NextAvailableAt j \<le> now)
               \<and> poll_handler ''POST'' (Decoded \<lparr>poll_WorkerID = worker\<rparr>) now remaining ks s us
                  = Some (Response StatusOK
                            (JobBody (j\<lparr>State := StateLeased, LeaseOwner := worker,
                                        LeaseExpiresAt := now + 30, LeaseID := LeaseID j + 1\<rparr>)),
                          [],
                          s\<lparr>jobs := (jobs s)(k \<mapsto> j\<lparr>State := StateLeased, LeaseOwner := worker,
                                        LeaseExpiresAt := now + 30, LeaseID := LeaseID j + 1\<rparr>)\<rparr>)))
       \<and> (\<forall>k j. jobs s k = Some j \<and> \<not> eligible now j \<longrightarrow>
            jobs (snd (poll_turn worker now remaining ks s)) k = Some j)"
proof (intro conjI impI allI)
  assume "\<exists>k0 j0. jobs s k0 = Some j0 \<and> eligible now j0"
  then obtain k0 j0 where e: "jobs s k0 = Some j0" "eligible now j0" by blast
  then have "k0 \<in> set ks" using assms(2) by (auto simp: visits_def)
  with e have "poll_scan worker now ks (jobs s) \<noteq> None"
    using poll_scan_None by blast
  then obtain k job js where sc: "poll_scan worker now ks (jobs s) = Some (k, job, js)"
    by (cases "poll_scan worker now ks (jobs s)") auto
  from poll_scan_Some [OF sc] obtain j where
    j: "jobs s k = Some j" "eligible now j" "job = lease worker now j" "js = (jobs s)(k \<mapsto> job)"
    by blast
  have "poll_handler ''POST'' (Decoded \<lparr>poll_WorkerID = worker\<rparr>) now remaining ks s us
        = Some (Response StatusOK (JobBody job), [], s\<lparr>jobs := js\<rparr>)"
    using assms(1) sc by (simp add: poll_handler_def poll_turn_def)
  with j show "\<exists>k j. jobs s k = Some j \<and> State j = StateQueued
               \<and> (NextAvailableAt j = 0 \<or> NextAvailableAt j \<le> now)
               \<and> poll_handler ''POST'' (Decoded \<lparr>poll_WorkerID = worker\<rparr>) now remaining ks s us
                  = Some (Response StatusOK
                            (JobBody (j\<lparr>State := StateLeased, LeaseOwner := worker,
                                        LeaseExpiresAt := now + 30, LeaseID := LeaseID j + 1\<rparr>)),
                          [],
                          s\<lparr>jobs := (jobs s)(k \<mapsto> j\<lparr>State := StateLeased, LeaseOwner := worker,
                                        LeaseExpiresAt := now + 30, LeaseID := LeaseID j + 1\<rparr>)\<rparr>)"
    unfolding lease_def eligible_def by blast
next
  fix k j
  assume a: "jobs s k = Some j \<and> \<not> eligible now j"
  show "jobs (snd (poll_turn worker now remaining ks s)) k = Some j"
  proof (cases "poll_scan worker now ks (jobs s)")
    case None
    then show ?thesis using a by (simp add: poll_turn_def)
  next
    case (Some t)
    then obtain k' job js where sc: "poll_scan worker now ks (jobs s) = Some (k', job, js)"
      by (cases t) auto
    from poll_scan_Some [OF sc] a have "k' \<noteq> k" "js = (jobs s)(k' \<mapsto> job)" by auto
    then show ?thesis using a sc by (simp add: poll_turn_def)
  qed
qed

theorem poll_leases_one_eligible_job_witness:
  "''w1'' \<noteq> '''' \<and> visits [uuid_a] (broker_of job_queued)
   \<and> jobs (broker_of job_queued) uuid_a = Some job_queued \<and> eligible 100 job_queued
   \<and> poll_handler ''POST'' (Decoded \<lparr>poll_WorkerID = ''w1''\<rparr>) 100 30000000000 [uuid_a]
        (broker_of job_queued) []
      = Some (Response StatusOK (JobBody job_leased), [], broker_of job_leased)
   \<and> State job_leased = StateLeased \<and> LeaseOwner job_leased = ''w1''
   \<and> LeaseExpiresAt job_leased = 130 \<and> LeaseID job_leased = 1"
proof -
  have pre: "''w1'' \<noteq> ''''" "visits [uuid_a] (broker_of job_queued)"
    by (simp_all add: sample_defs visits_def)
  have el: "jobs (broker_of job_queued) uuid_a = Some job_queued" "eligible 100 job_queued"
    by (simp_all add: sample_defs eligible_def new_job_def)
  have only: "jobs (broker_of job_queued) k = Some j \<Longrightarrow> k = uuid_a \<and> j = job_queued" for k j
    by (auto simp: broker_of_def split: if_splits)
  have upd: "(broker_of job_queued)\<lparr>jobs := (jobs (broker_of job_queued))(uuid_a \<mapsto> x)\<rparr> = broker_of x" for x
    by (simp add: broker_of_def)
  have vals: "State job_leased = StateLeased" "LeaseOwner job_leased = ''w1''"
    "LeaseExpiresAt job_leased = 130" "LeaseID job_leased = 1"
    by (simp_all add: sample_defs lease_def new_job_def)
  from poll_leases_one_eligible_job [OF pre, of 100 30000000000 "[]"] el
  obtain k j where kj: "jobs (broker_of job_queued) k = Some j"
    "poll_handler ''POST'' (Decoded \<lparr>poll_WorkerID = ''w1''\<rparr>) 100 30000000000 [uuid_a]
        (broker_of job_queued) []
      = Some (Response StatusOK
                (JobBody (j\<lparr>State := StateLeased, LeaseOwner := ''w1'',
                            LeaseExpiresAt := 100 + 30, LeaseID := LeaseID j + 1\<rparr>)),
              [],
              (broker_of job_queued)\<lparr>jobs := (jobs (broker_of job_queued))(k \<mapsto> j\<lparr>State := StateLeased, LeaseOwner := ''w1'',
                            LeaseExpiresAt := 100 + 30, LeaseID := LeaseID j + 1\<rparr>)\<rparr>)"
    by blast
  from only [OF kj(1)] have "k = uuid_a" "j = job_queued" by simp_all
  with kj(2) have "poll_handler ''POST'' (Decoded \<lparr>poll_WorkerID = ''w1''\<rparr>) 100 30000000000 [uuid_a]
        (broker_of job_queued) []
      = Some (Response StatusOK (JobBody job_leased), [], broker_of job_leased)"
    by (simp add: upd job_leased_def lease_def)
  then show ?thesis using pre el vals by simp
qed

text \<open>
  C3. In a broker reached by a run, a fail request that passes the checks of ack
  (known job, LEASED to the requesting worker, current lease identifier, lease not
  expired) counts one attempt more. When the new count reaches \<open>max_tries\<close> the job
  becomes DEAD with owner, expiry and next-available time cleared. Otherwise
  \<open>retryDelaySeconds\<close> of the new count returns a delay within its window and the
  job becomes QUEUED with owner and expiry cleared and next-available time
  \<open>now + delay\<close>. Nothing else changes.
\<close>

theorem fail_counts_attempt_then_dead_or_retry:
  assumes "exec es init_broker = Some s"
    and "fail_WorkerID rq \<noteq> ''''"
    and "jobs s (fail_JobID rq) = Some job" and "State job = StateLeased"
    and "LeaseOwner job = fail_WorkerID rq" and "fail_LeaseID rq = LeaseID job"
    and "now < LeaseExpiresAt job"
  shows "(MaxTries job \<le> Attempts job + 1 \<longrightarrow>
            fail_handler ''POST'' (Decoded rq) now r s =
              (Response StatusOK EmptyBody, [],
               s\<lparr>jobs := (jobs s)(fail_JobID rq \<mapsto>
                    job\<lparr>Attempts := Attempts job + 1, State := StateDead, LeaseOwner := '''',
                        LeaseExpiresAt := 0, NextAvailableAt := 0\<rparr>)\<rparr>))
       \<and> (Attempts job + 1 < MaxTries job \<longrightarrow>
            (\<exists>delay. retryDelaySeconds (Attempts job + 1) r = Inr delay
               \<and> 0 \<le> delay \<and> delay \<le> min (5 * 2 ^ nat (Attempts job)) 30
               \<and> fail_handler ''POST'' (Decoded rq) now r s =
                   (Response StatusOK EmptyBody, [],
                    s\<lparr>jobs := (jobs s)(fail_JobID rq \<mapsto>
                         job\<lparr>Attempts := Attempts job + 1, State := StateQueued,
                             LeaseOwner := '''', LeaseExpiresAt := 0,
                             NextAvailableAt := now + delay\<rparr>)\<rparr>)))"
proof -
  have inv: "broker_inv s" using assms(1) by (rule reachable_inv)
  then have j: "job_inv job" "length (fail_JobID rq) = 36"
    using assms(3) by (auto simp: broker_inv_def)
  then have ne: "fail_JobID rq \<noteq> ''''" by auto
  have att: "0 \<le> Attempts job" "Attempts job + 1 \<le> 61"
    using j(1) assms(4) by (auto simp: job_inv_def)
  have "max (Attempts job + 1) 1 - 1 = Attempts job" using att(1) by simp
  with retryDelaySeconds_range [OF att(2), of r]
  obtain delay where d: "retryDelaySeconds (Attempts job + 1) r = Inr delay" "0 \<le> delay"
    "delay \<le> min (5 * 2 ^ nat (Attempts job)) 30"
    by auto
  show ?thesis
  proof (intro conjI impI)
    assume "MaxTries job \<le> Attempts job + 1"
    then show "fail_handler ''POST'' (Decoded rq) now r s =
              (Response StatusOK EmptyBody, [],
               s\<lparr>jobs := (jobs s)(fail_JobID rq \<mapsto>
                    job\<lparr>Attempts := Attempts job + 1, State := StateDead, LeaseOwner := '''',
                        LeaseExpiresAt := 0, NextAvailableAt := 0\<rparr>)\<rparr>)"
      using assms ne by (simp add: fail_handler_def)
  next
    assume "Attempts job + 1 < MaxTries job"
    then have "fail_handler ''POST'' (Decoded rq) now r s =
                   (Response StatusOK EmptyBody, [],
                    s\<lparr>jobs := (jobs s)(fail_JobID rq \<mapsto>
                         job\<lparr>Attempts := Attempts job + 1, State := StateQueued,
                             LeaseOwner := '''', LeaseExpiresAt := 0,
                             NextAvailableAt := now + delay\<rparr>)\<rparr>)"
      using assms ne d(1) by (simp add: fail_handler_def)
    with d show "\<exists>delay. retryDelaySeconds (Attempts job + 1) r = Inr delay
               \<and> 0 \<le> delay \<and> delay \<le> min (5 * 2 ^ nat (Attempts job)) 30
               \<and> fail_handler ''POST'' (Decoded rq) now r s =
                   (Response StatusOK EmptyBody, [],
                    s\<lparr>jobs := (jobs s)(fail_JobID rq \<mapsto>
                         job\<lparr>Attempts := Attempts job + 1, State := StateQueued,
                             LeaseOwner := '''', LeaseExpiresAt := 0,
                             NextAvailableAt := now + delay\<rparr>)\<rparr>)"
      by blast
  qed
qed

theorem fail_counts_attempt_then_dead_or_retry_witness:
  "exec run_lease init_broker = Some (broker_of job_leased)
   \<and> jobs (broker_of job_leased) uuid_a = Some job_leased
   \<and> Attempts job_leased + 1 < MaxTries job_leased
   \<and> fail_handler ''POST'' (Decoded (fail_w1 1)) 101 7 (broker_of job_leased) =
       (Response StatusOK EmptyBody, [],
        broker_of (job_leased\<lparr>Attempts := 1, State := StateQueued, LeaseOwner := '''',
                             LeaseExpiresAt := 0, NextAvailableAt := 102\<rparr>))
   \<and> exec run_two_fails init_broker = Some (broker_of job_failed_twice)
   \<and> jobs (broker_of job_failed_twice) uuid_a = Some job_failed_twice
   \<and> MaxTries job_failed_twice \<le> Attempts job_failed_twice + 1
   \<and> fail_handler ''POST'' (Decoded (fail_w1 3)) 301 7 (broker_of job_failed_twice) =
       (Response StatusOK EmptyBody, [],
        broker_of (job_failed_twice\<lparr>Attempts := 3, State := StateDead, LeaseOwner := '''',
                             LeaseExpiresAt := 0, NextAvailableAt := 0\<rparr>))"
proof -
  have upd: "(broker_of x)\<lparr>jobs := (jobs (broker_of x))(uuid_a \<mapsto> y)\<rparr> = broker_of y" for x y
    by (simp add: broker_of_def)
  have a: "fail_WorkerID (fail_w1 n) \<noteq> ''''" "fail_JobID (fail_w1 n) = uuid_a" for n
    by (simp_all add: fail_w1_def)
  have l: "jobs (broker_of job_leased) (fail_JobID (fail_w1 1)) = Some job_leased"
    "State job_leased = StateLeased" "LeaseOwner job_leased = fail_WorkerID (fail_w1 1)"
    "fail_LeaseID (fail_w1 1) = LeaseID job_leased" "101 < LeaseExpiresAt job_leased"
    "Attempts job_leased + 1 < MaxTries job_leased" "Attempts job_leased = 0"
    by (simp_all add: sample_defs lease_def new_job_def)
  have t: "jobs (broker_of job_failed_twice) (fail_JobID (fail_w1 3)) = Some job_failed_twice"
    "State job_failed_twice = StateLeased" "LeaseOwner job_failed_twice = fail_WorkerID (fail_w1 3)"
    "fail_LeaseID (fail_w1 3) = LeaseID job_failed_twice" "301 < LeaseExpiresAt job_failed_twice"
    "MaxTries job_failed_twice \<le> Attempts job_failed_twice + 1" "Attempts job_failed_twice = 2"
    by (simp_all add: sample_defs lease_def new_job_def)
  have d: "retryDelaySeconds 1 7 = Inr 1"
    by (simp add: retryDelaySeconds_def Int63n_def wrap64_def base_def capDelay_def)
  from fail_counts_attempt_then_dead_or_retry
         [OF exec_run_lease a(1) l(1) l(2) l(3) l(4) l(5), of 7] l(6,7) d
  have 1: "fail_handler ''POST'' (Decoded (fail_w1 1)) 101 7 (broker_of job_leased) =
       (Response StatusOK EmptyBody, [],
        broker_of (job_leased\<lparr>Attempts := 1, State := StateQueued, LeaseOwner := '''',
                             LeaseExpiresAt := 0, NextAvailableAt := 102\<rparr>))"
    by (auto simp: a upd)
  from fail_counts_attempt_then_dead_or_retry
         [OF exec_run_two_fails a(1) t(1) t(2) t(3) t(4) t(5), of 7] t(6,7)
  have 2: "fail_handler ''POST'' (Decoded (fail_w1 3)) 301 7 (broker_of job_failed_twice) =
       (Response StatusOK EmptyBody, [],
        broker_of (job_failed_twice\<lparr>Attempts := 3, State := StateDead, LeaseOwner := '''',
                             LeaseExpiresAt := 0, NextAvailableAt := 0\<rparr>))"
    by (auto simp: a upd)
  show ?thesis using 1 2 l t exec_run_lease exec_run_two_fails by (simp add: a)
qed

text \<open>
  C4. Let an enqueue request with a key answer with the job identifier \<open>J\<close> in a
  broker reached by a run (the whole handler run at once, or its second part run after
  other steps), and let any steps follow. Then every later enqueue request
  with the same key, whatever its body, answers with \<open>J\<close>, performs no signal and
  leaves the broker as it is, so it creates nothing; the job \<open>J\<close> is in the store; and
  whenever the registry maps a key to a job identifier, a job with this identifier is in
  the store.
\<close>

theorem idempotent_enqueue:
  assumes "exec es init_broker = Some s" and "idemKey \<noteq> ''''"
    and "(jobs s jid1 = None \<and> length jid1 = 36
          \<and> enqueue_handler ''POST'' idemKey req1 jid1 s
              = (Response StatusOK (JobIDBody J), sigs, s1))
         \<or> (enabled (EnqueueFinish idemKey req1 jid1) s
             \<and> enqueue_finish idemKey req1 jid1 s = (Response StatusOK (JobIDBody J), sigs, s1))"
    and "exec es' s1 = Some s2"
  shows "enqueue_handler ''POST'' idemKey req2 jid2 s2 = (Response StatusOK (JobIDBody J), [], s2)
       \<and> (\<exists>job. jobs s2 J = Some job \<and> ID job = J)
       \<and> (\<forall>k v. idem s2 k = Some v \<and> v \<noteq> ''PENDING'' \<longrightarrow> (\<exists>job. jobs s2 v = Some job))"
proof -
  from assms(3) have "idem s1 idemKey = Some J \<and> J \<noteq> ''PENDING'' \<and> (\<exists>evs. exec evs s = Some s1)"
  proof
    assume a: "jobs s jid1 = None \<and> length jid1 = 36
          \<and> enqueue_handler ''POST'' idemKey req1 jid1 s
              = (Response StatusOK (JobIDBody J), sigs, s1)"
    then have a1: "jobs s jid1 = None" and a2: "length jid1 = 36"
      and a3: "enqueue_handler ''POST'' idemKey req1 jid1 s
              = (Response StatusOK (JobIDBody J), sigs, s1)"
      by simp_all
    note h = enqueue_handler_answers_id [OF assms(2) a3 a1 a2]
    have "exec [] s = Some s" by simp
    with h show ?thesis by metis
  next
    assume a: "enabled (EnqueueFinish idemKey req1 jid1) s
             \<and> enqueue_finish idemKey req1 jid1 s = (Response StatusOK (JobIDBody J), sigs, s1)"
    then have b1: "enabled (EnqueueFinish idemKey req1 jid1) s"
      and b2: "enqueue_finish idemKey req1 jid1 s = (Response StatusOK (JobIDBody J), sigs, s1)"
      by simp_all
    note h = enqueue_finish_answers_id [OF assms(2) b1 b2]
    then show ?thesis by metis
  qed
  then obtain evs where c1: "idem s1 idemKey = Some J" and np: "J \<noteq> ''PENDING''"
    and r1: "exec evs s = Some s1"
    by blast
  have "broker_inv s" using assms(1) by (rule reachable_inv)
  then have "broker_inv s1" using r1 broker_inv_exec by blast
  then have inv2: "broker_inv s2" using assms(4) broker_inv_exec by blast
  have c2: "idem s2 idemKey = Some J" using committed_stays_exec [OF assms(4) c1 np] .
  have "enqueue_handler ''POST'' idemKey req2 jid2 s2 = (Response StatusOK (JobIDBody J), [], s2)"
    using enqueue_handler_committed [OF assms(2) c2 np] .
  moreover have "\<exists>job. jobs s2 J = Some job \<and> ID job = J"
    using inv2 c2 np unfolding broker_inv_def by (metis option.exhaust)
  moreover have "\<forall>k v. idem s2 k = Some v \<and> v \<noteq> ''PENDING'' \<longrightarrow> (\<exists>job. jobs s2 v = Some job)"
    using inv2 unfolding broker_inv_def by blast
  ultimately show ?thesis by blast
qed

theorem idempotent_enqueue_witness:
  "exec [] init_broker = Some init_broker \<and> ''K'' \<noteq> ''''
   \<and> enqueue_handler ''POST'' ''K'' (Decoded \<lparr>enq_Payload = ''hello''\<rparr>) uuid_a init_broker
       = (Response StatusOK (JobIDBody uuid_a), [Signal], broker_of job_queued)
   \<and> jobs init_broker uuid_a = None \<and> length uuid_a = 36
   \<and> exec [PollTurn ''w1'' 100 30000000000 [uuid_a]] (broker_of job_queued)
       = Some (broker_of job_leased)
   \<and> enqueue_handler ''POST'' ''K'' (Decoded \<lparr>enq_Payload = ''other''\<rparr>) uuid_b (broker_of job_leased)
       = (Response StatusOK (JobIDBody uuid_a), [], broker_of job_leased)
   \<and> jobs (broker_of job_leased) uuid_a = Some job_leased
   \<and> jobs (broker_of job_leased) uuid_b = None"
proof -
  have 0: "exec [] init_broker = Some init_broker" "''K'' \<noteq> ''''" by simp_all
  have 1: "enqueue_handler ''POST'' ''K'' (Decoded \<lparr>enq_Payload = ''hello''\<rparr>) uuid_a init_broker
       = (Response StatusOK (JobIDBody uuid_a), [Signal], broker_of job_queued)"
    by (simp add: sample_defs handler_defs)
  have 2: "jobs init_broker uuid_a = None" "length uuid_a = 36"
    by (simp_all add: init_broker_def uuid_a_def)
  have 3: "exec [PollTurn ''w1'' 100 30000000000 [uuid_a]] (broker_of job_queued)
       = Some (broker_of job_leased)"
    by (simp add: sample_defs handler_defs)
  have 4: "jobs (broker_of job_leased) uuid_a = Some job_leased"
    "jobs (broker_of job_leased) uuid_b = None"
    by (simp_all add: broker_of_def uuid_a_def uuid_b_def)
  from 1 2 have first:
    "(jobs init_broker uuid_a = None \<and> length uuid_a = 36
      \<and> enqueue_handler ''POST'' ''K'' (Decoded \<lparr>enq_Payload = ''hello''\<rparr>) uuid_a init_broker
          = (Response StatusOK (JobIDBody uuid_a), [Signal], broker_of job_queued))
     \<or> (enabled (EnqueueFinish ''K'' (Decoded \<lparr>enq_Payload = ''hello''\<rparr>) uuid_a) init_broker
         \<and> enqueue_finish ''K'' (Decoded \<lparr>enq_Payload = ''hello''\<rparr>) uuid_a init_broker
             = (Response StatusOK (JobIDBody uuid_a), [Signal], broker_of job_queued))"
    by blast
  from idempotent_enqueue [OF 0 first 3, of "Decoded \<lparr>enq_Payload = ''other''\<rparr>" uuid_b]
  have "enqueue_handler ''POST'' ''K'' (Decoded \<lparr>enq_Payload = ''other''\<rparr>) uuid_b (broker_of job_leased)
       = (Response StatusOK (JobIDBody uuid_a), [], broker_of job_leased)"
    by blast
  then show ?thesis using 0 1 2 3 4 by blast
qed

text \<open>
  C5. A sweeper pass that re-queues a job performs no operation on the condition
  variable: here a job leased until 130 is swept at 200, it is re-queued and reported,
  and the list of signals and broadcasts of the pass is empty.
\<close>

theorem sweeper_requeues_without_broadcast:
  "visits [uuid_a] (broker_of job_leased) \<and> expired 200 job_leased
   \<and> expireLeases 200 [uuid_a] (broker_of job_leased)
      = ([uuid_a], [], broker_of (requeue job_leased))
   \<and> sweeper_tick 200 [uuid_a] (broker_of job_leased) = ([], broker_of (requeue job_leased))
   \<and> State (requeue job_leased) = StateQueued"
  by (simp add: sample_defs visits_def expired_def requeue_def lease_def new_job_def
      sweeper_tick_def expireLeases_def)

text \<open>
  C6. In every broker reached by a run, every job has \<open>attempts \<le> max_tries\<close>, and
  it is DEAD exactly when \<open>attempts = max_tries\<close>. For every step that can follow and
  every job: the attempts stay or, in a fail on the leased job, grow by one; the job
  turns DEAD in this step exactly when the step is a fail that raises its attempts by
  one to \<open>max_tries\<close>; and a job that is DONE or DEAD is left as it is.
\<close>

theorem attempts_bounded_dead_exactly_at_max:
  assumes "exec es init_broker = Some s"
  shows "(\<forall>jid j. jobs s jid = Some j \<longrightarrow>
            Attempts j \<le> MaxTries j \<and> (State j = StateDead \<longleftrightarrow> Attempts j = MaxTries j))
       \<and> (\<forall>e jid j. enabled e s \<and> jobs s jid = Some j \<longrightarrow>
            (\<exists>j'. jobs (after e s) jid = Some j'
               \<and> (Attempts j' = Attempts j \<or> (is_fail e \<and> Attempts j' = Attempts j + 1))
               \<and> MaxTries j' = MaxTries j
               \<and> ((State j \<noteq> StateDead \<and> State j' = StateDead) \<longleftrightarrow>
                    (is_fail e \<and> Attempts j' = Attempts j + 1 \<and> Attempts j' = MaxTries j'))
               \<and> (State j = StateDone \<or> State j = StateDead \<longrightarrow> j' = j)))"
proof -
  have inv: "broker_inv s" using assms by (rule reachable_inv)
  have bound: "Attempts j \<le> MaxTries j \<and> (State j = StateDead \<longleftrightarrow> Attempts j = MaxTries j)"
    if "jobs s jid = Some j" for jid j
  proof -
    have "job_inv j" using inv that by (auto simp: broker_inv_def)
    then show ?thesis by (simp add: job_inv_def)
  qed
  have step: "\<exists>j'. jobs (after e s) jid = Some j'
               \<and> (Attempts j' = Attempts j \<or> (is_fail e \<and> Attempts j' = Attempts j + 1))
               \<and> MaxTries j' = MaxTries j
               \<and> ((State j \<noteq> StateDead \<and> State j' = StateDead) \<longleftrightarrow>
                    (is_fail e \<and> Attempts j' = Attempts j + 1 \<and> Attempts j' = MaxTries j'))
               \<and> (State j = StateDone \<or> State j = StateDead \<longrightarrow> j' = j)"
    if a: "enabled e s \<and> jobs s jid = Some j" for e jid j
  proof -
    have ji: "job_inv j" using inv a by (auto simp: broker_inv_def)
    from step_job [of e s jid j] a obtain j' where
      j': "jobs (after e s) jid = Some j'"
      "Attempts j' = Attempts j \<or> (is_fail e \<and> State j = StateLeased \<and> Attempts j' = Attempts j + 1)"
      "MaxTries j' = MaxTries j"
      "State j = StateDone \<or> State j = StateDead \<longrightarrow> j' = j"
      "job_inv j \<longrightarrow> job_inv j'"
      by blast
    then have ji': "job_inv j'" using ji by simp
    have "(State j \<noteq> StateDead \<and> State j' = StateDead) \<longleftrightarrow>
            (is_fail e \<and> Attempts j' = Attempts j + 1 \<and> Attempts j' = MaxTries j')"
      using ji ji' j'(2,3) by (auto simp: job_inv_def)
    with j' show ?thesis by blast
  qed
  show ?thesis using bound step by blast
qed

theorem attempts_bounded_dead_exactly_at_max_witness:
  "exec run_two_fails init_broker = Some (broker_of job_failed_twice)
   \<and> jobs (broker_of job_failed_twice) uuid_a = Some job_failed_twice
   \<and> Attempts job_failed_twice = 2 \<and> MaxTries job_failed_twice = 3
   \<and> State job_failed_twice = StateLeased
   \<and> enabled (Fail ''POST'' (Decoded (fail_w1 3)) 301 7) (broker_of job_failed_twice)
   \<and> (\<exists>j'. jobs (after (Fail ''POST'' (Decoded (fail_w1 3)) 301 7) (broker_of job_failed_twice)) uuid_a
              = Some j'
         \<and> Attempts j' = 3 \<and> MaxTries j' = 3 \<and> State j' = StateDead)"
proof -
  let ?e = "Fail ''POST'' (Decoded (fail_w1 3)) 301 7"
  let ?s = "broker_of job_failed_twice"
  have pre: "enabled ?e ?s" "jobs ?s uuid_a = Some job_failed_twice" "is_fail ?e"
    by (simp_all add: broker_of_def)
  have vals: "Attempts job_failed_twice = 2" "MaxTries job_failed_twice = 3"
    "State job_failed_twice = StateLeased"
    by (simp_all add: sample_defs new_job_def)
  have att: "Attempts (the (jobs (after ?e ?s) uuid_a)) = 3"
    by (simp add: sample_defs handler_defs)
  from attempts_bounded_dead_exactly_at_max [OF exec_run_two_fails] pre
  obtain j' where j': "jobs (after ?e ?s) uuid_a = Some j'"
    "MaxTries j' = MaxTries job_failed_twice"
    "(State job_failed_twice \<noteq> StateDead \<and> State j' = StateDead) \<longleftrightarrow>
       (is_fail ?e \<and> Attempts j' = Attempts job_failed_twice + 1 \<and> Attempts j' = MaxTries j')"
    by blast
  then have "Attempts j' = 3 \<and> MaxTries j' = 3 \<and> State j' = StateDead"
    using att vals pre(3) by auto
  then show ?thesis using exec_run_two_fails pre vals j'(1) by blast
qed

text \<open>
  C7. In every broker reached by a run, the lease identifier of a job is the number
  of turns of poll requests that leased this job in the run: a new job has 0, a step
  that leases the job raises it by exactly one, every other step (the sweeper's
  re-queue of an expired lease among them) leaves it as it is, so that it never
  decreases; and the copy of the job that a poll returns carries the new number, which
  is 1 at the first lease.
\<close>

theorem lease_id_counts_leases:
  assumes "exec es init_broker = Some s"
  shows "(\<forall>jid j. jobs s jid = Some j \<longrightarrow> LeaseID j = int (lease_count jid es init_broker))
       \<and> (\<forall>e jid j. enabled e s \<and> jobs s jid = Some j \<longrightarrow>
            (\<exists>j'. jobs (after e s) jid = Some j' \<and> LeaseID j \<le> LeaseID j'
               \<and> LeaseID j' = (if leased_by e s = Some jid then LeaseID j + 1 else LeaseID j)))
       \<and> (\<forall>e jid j'. enabled e s \<and> jobs s jid = None \<and> jobs (after e s) jid = Some j' \<longrightarrow>
            LeaseID j' = 0)
       \<and> (\<forall>now ks. leased_by (SweeperTick now ks) s = None)
       \<and> (\<forall>worker now remaining ks job s'.
            enabled (PollTurn worker now remaining ks) s
            \<and> poll_turn worker now remaining ks s = (Leased job, s') \<longrightarrow>
            leased_by (PollTurn worker now remaining ks) s = Some (ID job)
            \<and> jobs s' (ID job) = Some job
            \<and> LeaseID job = int (lease_count (ID job) es init_broker) + 1)"
proof -
  have inv: "broker_inv s" using assms by (rule reachable_inv)
  have cnt: "LeaseID j = int (lease_count jid es init_broker)" if "jobs s jid = Some j" for jid j
    using lease_count_exec [OF assms, of jid] that by (simp add: init_broker_def)
  have step: "\<exists>j'. jobs (after e s) jid = Some j' \<and> LeaseID j \<le> LeaseID j'
               \<and> LeaseID j' = (if leased_by e s = Some jid then LeaseID j + 1 else LeaseID j)"
    if "enabled e s \<and> jobs s jid = Some j" for e jid j
    using step_job [of e s jid j] that by auto
  have new: "LeaseID j' = 0"
    if "enabled e s \<and> jobs s jid = None \<and> jobs (after e s) jid = Some j'" for e jid j'
    using step_new_job [of e s jid] that by (auto simp: new_job_def)
  have poll: "leased_by (PollTurn worker now remaining ks) s = Some (ID job)
            \<and> jobs s' (ID job) = Some job
            \<and> LeaseID job = int (lease_count (ID job) es init_broker) + 1"
    if a: "enabled (PollTurn worker now remaining ks) s
            \<and> poll_turn worker now remaining ks s = (Leased job, s')"
    for worker now remaining ks job s'
  proof -
    from a obtain k js where sc: "poll_scan worker now ks (jobs s) = Some (k, job, js)"
      and s': "s' = s\<lparr>jobs := js\<rparr>"
      by (auto simp: poll_turn_def split: option.splits if_splits)
    from poll_scan_Some [OF sc] obtain j where
      j: "jobs s k = Some j" "job = lease worker now j" "js = (jobs s)(k \<mapsto> job)"
      by blast
    have "ID j = k" using inv j(1) by (auto simp: broker_inv_def)
    then have k: "ID job = k" using j(2) by (simp add: lease_def)
    have "LeaseID job = LeaseID j + 1" using j(2) by (simp add: lease_def)
    then show ?thesis using k sc s' j cnt [OF j(1)] by simp
  qed
  have sw: "leased_by (SweeperTick now ks) s = None" for now ks
    by simp
  from cnt step new sw poll show ?thesis
    by blast
qed

theorem lease_id_counts_leases_witness:
  "exec run_enqueue init_broker = Some (broker_of job_queued)
   \<and> enabled (PollTurn ''w1'' 100 30000000000 [uuid_a]) (broker_of job_queued)
   \<and> poll_turn ''w1'' 100 30000000000 [uuid_a] (broker_of job_queued)
       = (Leased job_leased, broker_of job_leased)
   \<and> lease_count uuid_a run_enqueue init_broker = 0
   \<and> LeaseID job_leased = 1
   \<and> exec run_lease init_broker = Some (broker_of job_leased)
   \<and> lease_count uuid_a run_lease init_broker = 1
   \<and> enabled (SweeperTick 200 [uuid_a]) (broker_of job_leased)
   \<and> (\<exists>j'. jobs (after (SweeperTick 200 [uuid_a]) (broker_of job_leased)) uuid_a = Some j'
         \<and> State j' = StateQueued \<and> LeaseID j' = 1)"
proof -
  let ?p = "PollTurn ''w1'' 100 30000000000 [uuid_a]"
  let ?t = "SweeperTick 200 [uuid_a]"
  have en: "enabled ?p (broker_of job_queued)" "enabled ?t (broker_of job_leased)"
    by (simp_all add: broker_of_def visits_def)
  have turn: "poll_turn ''w1'' 100 30000000000 [uuid_a] (broker_of job_queued)
       = (Leased job_leased, broker_of job_leased)"
    by (simp add: sample_defs handler_defs)
  have c0: "lease_count uuid_a run_enqueue init_broker = 0"
    by (simp add: sample_defs handler_defs)
  have idj: "ID job_leased = uuid_a" "jobs (broker_of job_leased) uuid_a = Some job_leased"
    by (simp_all add: sample_defs lease_def new_job_def)
  from lease_id_counts_leases [OF exec_run_enqueue] en(1) turn
  have "LeaseID job_leased = int (lease_count (ID job_leased) run_enqueue init_broker) + 1"
    by blast
  then have l1: "LeaseID job_leased = 1" using c0 idj by simp
  from lease_id_counts_leases [OF exec_run_lease] idj(2)
  have "LeaseID job_leased = int (lease_count uuid_a run_lease init_broker)"
    by blast
  then have c1: "lease_count uuid_a run_lease init_broker = 1" using l1 by simp
  from lease_id_counts_leases [OF exec_run_lease] en(2) idj(2)
  obtain j' where j': "jobs (after ?t (broker_of job_leased)) uuid_a = Some j'"
    "LeaseID j' = (if leased_by ?t (broker_of job_leased) = Some uuid_a
                   then LeaseID job_leased + 1 else LeaseID job_leased)"
    by blast
  have "State (the (jobs (after ?t (broker_of job_leased)) uuid_a)) = StateQueued"
    by (simp add: sample_defs handler_defs)
  with j' l1 have "State j' = StateQueued \<and> LeaseID j' = 1" by simp
  with j'(1) exec_run_enqueue exec_run_lease en turn c0 c1 l1 show ?thesis by blast
qed

text \<open>
  C8. For every number of attempts up to 61, the clamped ones below 1 among them (the
  broker itself calls the function with 1 and 2 only, see \<open>fail_never_panics\<close>),
  \<open>retryDelaySeconds\<close> returns a number of seconds in the window from 0 to
  \<open>min (5 * 2 ^ (attempts - 1)) 30\<close>, both ends included; every number of the window
  is returned for some draw; and the draws are spread evenly: among the first
  \<open>m * (window + 1)\<close> values that \<open>rand.Int63n\<close> can accept, exactly \<open>m\<close> give any one
  number of the window (it accepts a whole number of such periods).
\<close>

theorem retry_delay_full_jitter:
  assumes "a \<le> 61"
  shows "(\<exists>d. retryDelaySeconds a r = Inr d \<and> 0 \<le> d
              \<and> d \<le> min (5 * 2 ^ nat (max a 1 - 1)) 30)
       \<and> (\<forall>d. 0 \<le> d \<and> d \<le> min (5 * 2 ^ nat (max a 1 - 1)) 30 \<longrightarrow>
            (\<exists>r'. retryDelaySeconds a r' = Inr d)
            \<and> (\<forall>m. card {r'. r' < m * nat (min (5 * 2 ^ nat (max a 1 - 1)) 30 + 1)
                           \<and> retryDelaySeconds a r' = Inr d} = m))"
proof -
  define w :: int where "w = min (5 * 2 ^ nat (max a 1 - 1)) 30"
  have w0: "0 \<le> w" by (simp add: w_def)
  have val: "retryDelaySeconds a r' = Inr (int r' mod (w + 1))" for r'
    using retryDelaySeconds_window [OF assms, of r'] by (simp add: w_def)
  have even: "card {r'. r' < m * nat (w + 1) \<and> retryDelaySeconds a r' = Inr d} = m"
    if d: "0 \<le> d \<and> d \<le> w" for d m
  proof -
    have n: "int (nat (w + 1)) = w + 1" using w0 by simp
    have "(int r' mod (w + 1) = d) = (r' mod nat (w + 1) = nat d)" for r'
    proof -
      have "int r' mod (w + 1) = int (r' mod nat (w + 1))"
        by (simp only: zmod_int n)
      then show ?thesis using d by auto
    qed
    then have "{r'. r' < m * nat (w + 1) \<and> retryDelaySeconds a r' = Inr d}
             = {r'. r' < m * nat (w + 1) \<and> r' mod nat (w + 1) = nat d}"
      by (simp add: val)
    moreover have "nat d < nat (w + 1)" using d by simp
    ultimately show ?thesis by (simp add: card_residue)
  qed
  have onto: "\<exists>r'. retryDelaySeconds a r' = Inr d" if "0 \<le> d \<and> d \<le> w" for d
    using retryDelaySeconds_onto [OF assms, of d] that unfolding w_def by blast
  from retryDelaySeconds_range [OF assms, of r] onto even show ?thesis
    unfolding w_def by blast
qed

theorem retry_delay_full_jitter_witness:
  "(2::int) \<le> 61 \<and> min (5 * 2 ^ nat (max 2 1 - 1)) 30 = (10::int)
   \<and> retryDelaySeconds 2 7 = Inr 7
   \<and> (\<exists>r'. retryDelaySeconds 2 r' = Inr 10)
   \<and> card {r'. r' < 3 * 11 \<and> retryDelaySeconds 2 r' = Inr 4} = 3"
proof -
  have a: "(2::int) \<le> 61" by simp
  have w: "min (5 * 2 ^ nat (max 2 1 - 1)) 30 = (10::int)" by simp
  have v: "retryDelaySeconds 2 7 = Inr 7"
    by (simp add: retryDelaySeconds_def Int63n_def wrap64_def base_def capDelay_def)
  note t = retry_delay_full_jitter [OF a, of 7, unfolded w]
  from t have 1: "\<exists>r'. retryDelaySeconds 2 r' = Inr 10" by simp
  from t have "\<forall>m. card {r'. r' < m * nat (10 + 1) \<and> retryDelaySeconds 2 r' = Inr 4} = m"
    by simp
  then have "card {r'. r' < 3 * nat (10 + 1) \<and> retryDelaySeconds 2 r' = Inr 4} = 3"
    by (rule spec)
  then have 2: "card {r'. r' < 3 * 11 \<and> retryDelaySeconds 2 r' = Inr 4} = 3" by simp
  show ?thesis using a w v 1 2 by blast
qed

text \<open>
  C9, as stated, fails: a body that is a JSON object without the \<open>payload\<close> member
  decodes, with the empty string as payload, and the request is answered with 200 and
  a new job.
\<close>

theorem enqueue_without_payload_counterexample:
  "enqueue_handler ''POST'' ''K'' (decode_EnqueueRequest (JSONObject None)) uuid_a init_broker
     = (Response StatusOK (JobIDBody uuid_a), [Signal],
        broker_of (new_job uuid_a \<lparr>enq_Payload = ''''\<rparr>))"
  by (simp add: sample_defs handler_defs)

text \<open>
  C9, amended. An enqueue request (POST) with no key, or with a key that is not in
  the registry, whose body does not decode is answered with 400, performs no signal
  and leaves the broker as it was: no job is created and the reservation it made is
  gone. When other steps ran after the reservation, the second part of the handler
  answers 400, creates no job and removes the pending entry of the key. A body that
  is a JSON object without the \<open>payload\<close> member decodes to the empty payload, and
  the request creates the job and answers with its identifier.
\<close>

theorem enqueue_undecodable_releases:
  shows "(idemKey = '''' \<or> idem s idemKey = None \<longrightarrow>
            enqueue_handler ''POST'' idemKey (decode_EnqueueRequest NotJSON) jid s
              = (Response StatusBadRequest EmptyBody, [], s))
       \<and> (idemKey \<noteq> '''' \<and> idem s idemKey = Some ''PENDING'' \<longrightarrow>
            enqueue_finish idemKey (decode_EnqueueRequest NotJSON) jid s
              = (Response StatusBadRequest EmptyBody, [], s\<lparr>idem := (idem s)(idemKey := None)\<rparr>))
       \<and> (idemKey = '''' \<or> idem s idemKey = None \<longrightarrow>
            enqueue_handler ''POST'' idemKey (decode_EnqueueRequest (JSONObject None)) jid s
              = (Response StatusOK (JobIDBody jid), [Signal],
                 \<lparr>jobs = (jobs s)(jid \<mapsto> new_job jid \<lparr>enq_Payload = ''''\<rparr>),
                  idem = (if idemKey = '''' then idem s else (idem s)(idemKey \<mapsto> jid))\<rparr>))"
  by (auto simp: enqueue_handler_def enqueue_begin_def enqueue_finish_def reserve_def
      release_def commit_def Let_def fun_upd_idem)

theorem enqueue_undecodable_releases_witness:
  "idem (broker_of job_queued) ''K2'' = None
   \<and> enqueue_handler ''POST'' ''K2'' (decode_EnqueueRequest NotJSON) uuid_b (broker_of job_queued)
       = (Response StatusBadRequest EmptyBody, [], broker_of job_queued)
   \<and> fst (enqueue_begin ''POST'' ''K2'' (broker_of job_queued)) = None
   \<and> idem (snd (enqueue_begin ''POST'' ''K2'' (broker_of job_queued))) ''K2'' = Some ''PENDING''
   \<and> enqueue_finish ''K2'' (decode_EnqueueRequest NotJSON) uuid_b
        (snd (enqueue_begin ''POST'' ''K2'' (broker_of job_queued)))
       = (Response StatusBadRequest EmptyBody, [], broker_of job_queued)"
proof -
  let ?s = "broker_of job_queued"
  let ?t = "snd (enqueue_begin ''POST'' ''K2'' ?s)"
  have fresh: "idem ?s ''K2'' = None" by (simp add: broker_of_def)
  have b: "fst (enqueue_begin ''POST'' ''K2'' ?s) = None" "idem ?t ''K2'' = Some ''PENDING''"
    by (simp_all add: broker_of_def enqueue_begin_def reserve_def)
  have restored: "?t\<lparr>idem := (idem ?t)(''K2'' := None)\<rparr> = ?s"
    by (simp add: broker_of_def enqueue_begin_def reserve_def)
  from enqueue_undecodable_releases [of "''K2''" ?s uuid_b] fresh
  have 1: "enqueue_handler ''POST'' ''K2'' (decode_EnqueueRequest NotJSON) uuid_b ?s
       = (Response StatusBadRequest EmptyBody, [], ?s)"
    by simp
  from enqueue_undecodable_releases [of "''K2''" ?t uuid_b] b(2)
  have "enqueue_finish ''K2'' (decode_EnqueueRequest NotJSON) uuid_b ?t
       = (Response StatusBadRequest EmptyBody, [], ?t\<lparr>idem := (idem ?t)(''K2'' := None)\<rparr>)"
    by simp
  then have 2: "enqueue_finish ''K2'' (decode_EnqueueRequest NotJSON) uuid_b ?t
       = (Response StatusBadRequest EmptyBody, [], ?s)"
    by (simp only: restored)
  show ?thesis using fresh b 1 2 by simp
qed

text \<open>
  C10. On a job that is DONE, \<open>/ack\<close> and \<open>/fail\<close> answer 200 and change nothing,
  whatever worker identifier and lease identifier the (well-formed) request carries:
  the DONE test comes before the tests of owner, lease identifier and expiry.
\<close>

theorem done_short_circuit:
  assumes "jobs s jid = Some job" and "State job = StateDone"
    and "worker \<noteq> ''''" and "jid \<noteq> ''''"
  shows "ack_handler ''POST''
           (Decoded \<lparr>ack_WorkerID = worker, ack_JobID = jid, ack_LeaseID = lid\<rparr>) now s
         = (Response StatusOK EmptyBody, [], s)
       \<and> fail_handler ''POST''
           (Decoded \<lparr>fail_WorkerID = worker, fail_JobID = jid, fail_LeaseID = lid\<rparr>) now r s
         = (Response StatusOK EmptyBody, [], s)"
  using assms by (simp add: ack_handler_def fail_handler_def)

theorem done_short_circuit_witness:
  "jobs (broker_of job_done) uuid_a = Some job_done \<and> State job_done = StateDone
   \<and> LeaseOwner job_done = '''' \<and> LeaseID job_done = 1
   \<and> ack_handler ''POST''
        (Decoded \<lparr>ack_WorkerID = ''w9'', ack_JobID = uuid_a, ack_LeaseID = 7\<rparr>) 500
        (broker_of job_done)
      = (Response StatusOK EmptyBody, [], broker_of job_done)
   \<and> fail_handler ''POST''
        (Decoded \<lparr>fail_WorkerID = ''w9'', fail_JobID = uuid_a, fail_LeaseID = 7\<rparr>) 500 0
        (broker_of job_done)
      = (Response StatusOK EmptyBody, [], broker_of job_done)"
proof -
  have pre: "jobs (broker_of job_done) uuid_a = Some job_done" "State job_done = StateDone"
    "''w9'' \<noteq> ''''" "uuid_a \<noteq> ''''"
    by (simp_all add: sample_defs)
  have vals: "LeaseOwner job_done = ''''" "LeaseID job_done = 1"
    by (simp_all add: sample_defs lease_def new_job_def)
  show ?thesis
    using done_short_circuit [OF pre, of 7 500 0] pre vals by simp
qed

end
